theory Spec2Isabelle
  imports Complex_Main "HOL-Library.Log_Nat"
begin

section \<open>Numbers as the program has them\<close>

text \<open>
  The services compute with three kinds of numbers: Python \<open>int\<close> (unbounded, modelled by
  \<open>int\<close>), \<open>decimal.Decimal\<close> under the context \<open>getcontext().prec = 28\<close> of
  \<^verbatim>\<open>apps/core/utils.py\<close>, and binary \<open>float\<close> in the credit score.

  A finite Decimal and a finite float are modelled by their numeric value, a rational.
  An arithmetic operation of either kind returns the exact result rounded to the
  precision of the format (28 significant decimal digits, 53 significant bits), ties
  to the even neighbour. The exponent range of the formats (\<open>Emax = 999999\<close> for the
  decimal context, about \<open>10^308\<close> for floats) is not modelled: no overflow, no
  subnormal numbers. The special values (NaN, infinities) are not modelled either.
\<close>

definition round_half_even :: "rat \<Rightarrow> int" where
  "round_half_even q =
     (let f = \<lfloor>q\<rfloor>; d = q - of_int f
      in if d < 1 / 2 then f else if 1 / 2 < d then f + 1 else if even f then f else f + 1)"

text \<open>\<open>ROUND_HALF_UP\<close> of the decimal module: to the nearest, ties away from zero.\<close>

definition round_half_up :: "rat \<Rightarrow> int" where
  "round_half_up q = (if 0 \<le> q then \<lfloor>q + 1 / 2\<rfloor> else - \<lfloor>- q + 1 / 2\<rfloor>)"

text \<open>
  \<open>adjusted b x\<close> is the exponent of the leading digit of \<open>x\<close> in base \<open>b\<close>: the \<open>e\<close> with
  \<open>b^e \<le> |x| < b^(e+1)\<close>, found from the digit counts of numerator and denominator.
\<close>

definition adjusted :: "nat \<Rightarrow> rat \<Rightarrow> int" where
  "adjusted b x =
     (let (n, d) = quotient_of \<bar>x\<bar>;
          k = int (floorlog b (nat n)) - int (floorlog b (nat d))
      in if of_nat b powi k \<le> \<bar>x\<bar> then k else k - 1)"

text \<open>\<open>round_digits b p x\<close>: \<open>x\<close> rounded to \<open>p\<close> significant digits in base \<open>b\<close>, half to even.\<close>

definition round_digits :: "nat \<Rightarrow> nat \<Rightarrow> rat \<Rightarrow> rat" where
  "round_digits b p x =
     (if x = 0 then 0
      else let e = adjusted b x - (int p - 1)
           in of_int (round_half_even (x / of_nat b powi e)) * of_nat b powi e)"

subsection \<open>Errors\<close>

text \<open>
  Every exception the modelled code can raise is a value: \<open>ValueError\<close> (the input checks
  of \<open>calculate_emi\<close>, and a date past year 9999), the decimal module's trapped signals
  \<open>DivisionByZero\<close> and \<open>InvalidOperation\<close>, \<open>CustomerNotFoundError\<close> of
  \<^verbatim>\<open>apps/core/exceptions.py\<close>, and \<open>StorageError\<close> for any exception of the database layer.
\<close>

datatype error =
    ValueError
  | DivisionByZero
  | InvalidOperation
  | CustomerNotFoundError
  | StorageError

subsection \<open>Decimal arithmetic at precision 28\<close>

definition prec :: nat where
  "prec = 28"

definition dec_fix :: "rat \<Rightarrow> rat" where
  "dec_fix x = round_digits 10 prec x"

definition dec_add :: "rat \<Rightarrow> rat \<Rightarrow> rat" where
  "dec_add x y = dec_fix (x + y)"

definition dec_sub :: "rat \<Rightarrow> rat \<Rightarrow> rat" where
  "dec_sub x y = dec_fix (x - y)"

definition dec_mul :: "rat \<Rightarrow> rat \<Rightarrow> rat" where
  "dec_mul x y = dec_fix (x * y)"

definition dec_div :: "rat \<Rightarrow> rat \<Rightarrow> error + rat" where
  "dec_div x y =
     (if y = 0 then (if x = 0 then Inl InvalidOperation else Inl DivisionByZero)
      else Inr (dec_fix (x / y)))"

text \<open>
  \<open>Decimal ** int\<close> with a positive integer exponent, as the decimal library computes
  it: square and multiply over the bits of the exponent below its top bit, every
  product rounded to the working precision \<open>prec + digits(n) + 2\<close>, and the result
  rounded to \<open>prec\<close>.
\<close>

fun bits_msb :: "nat \<Rightarrow> bool list" where
  "bits_msb n = (if n = 0 then [] else bits_msb (n div 2) @ [odd n])"

fun pow_uint :: "nat \<Rightarrow> rat \<Rightarrow> bool list \<Rightarrow> rat \<Rightarrow> rat" where
  "pow_uint wp base [] acc = acc"
| "pow_uint wp base (b # bs) acc =
     (let sq = round_digits 10 wp (acc * acc);
          r = (if b then round_digits 10 wp (sq * base) else sq)
      in pow_uint wp base bs r)"

definition dec_pow :: "rat \<Rightarrow> nat \<Rightarrow> rat" where
  "dec_pow x n =
     (if n = 0 then 1
      else dec_fix (pow_uint (prec + floorlog 10 n + 2) x (tl (bits_msb n)) x))"

text \<open>
  \<open>emi.quantize(Decimal('0.01'), rounding=ROUND_HALF_UP)\<close>: the value rounded to two
  decimal places, ties away from zero; \<open>InvalidOperation\<close> when the coefficient of the
  result would have more than \<open>prec\<close> digits.
\<close>

definition quantize :: "rat \<Rightarrow> error + rat" where
  "quantize x =
     (let y = of_int (round_half_up (x * 100)) / 100
      in if 10 ^ (prec - 2) \<le> \<bar>y\<bar> then Inl InvalidOperation else Inr y)"

subsection \<open>\<open>calculate_emi\<close> (\<^verbatim>\<open>apps/core/utils.py\<close>)\<close>

text \<open>
  The arguments are the values after the coercion \<open>Decimal(str(...))\<close>, which is exact
  on a Decimal and on an int.
\<close>

definition calculate_emi :: "rat \<Rightarrow> rat \<Rightarrow> int \<Rightarrow> error + rat" where
  "calculate_emi principal' annual_rate tenure_months =
     (if principal' \<le> 0 then Inl ValueError
      else if annual_rate < 0 then Inl ValueError
      else if tenure_months < 1 then Inl ValueError
      else if annual_rate = 0 then
        (case dec_div principal' (of_int tenure_months) of
           Inl e \<Rightarrow> Inl e
         | Inr emi \<Rightarrow> quantize emi)
      else
        (case dec_div annual_rate 1200 of
           Inl e \<Rightarrow> Inl e
         | Inr monthly_rate \<Rightarrow>
             let one_plus_r = dec_add 1 monthly_rate;
                 power_term = dec_pow one_plus_r (nat tenure_months)
             in (case dec_div (dec_mul (dec_mul principal' monthly_rate) power_term)
                        (dec_sub power_term 1) of
                   Inl e \<Rightarrow> Inl e
                 | Inr emi \<Rightarrow> quantize emi)))"

subsection \<open>Binary floating point and \<open>round()\<close>\<close>

definition float_of :: "rat \<Rightarrow> rat" where
  "float_of x = round_digits 2 53 x"

definition fadd :: "rat \<Rightarrow> rat \<Rightarrow> rat" where
  "fadd x y = float_of (x + y)"

definition fmul :: "rat \<Rightarrow> rat \<Rightarrow> rat" where
  "fmul x y = float_of (x * y)"

definition fdiv :: "rat \<Rightarrow> rat \<Rightarrow> rat" where
  "fdiv x y = float_of (x / y)"

text \<open>Python 3's \<open>round(x)\<close> on a float: the nearest integer, ties to the even one.\<close>

definition py_round :: "rat \<Rightarrow> int" where
  "py_round x = round_half_even x"

section \<open>Data model (\<^verbatim>\<open>apps/customers/models.py\<close>, \<^verbatim>\<open>apps/loans/models.py\<close>)\<close>

record date =
  year :: int
  month :: int
  day :: int

record customer =
  pk :: nat
  monthly_salary :: int
  approved_limit :: int
  current_debt :: rat

record loan =
  loan_pk :: nat
  customer_id :: nat
  loan_amount :: rat
  tenure :: int
  interest_rate :: rat
  monthly_installment :: rat
  emis_paid_on_time :: int
  start_date :: date
  end_date :: date
  is_active :: bool

text \<open>
  The database: the rows of the two tables and the sequence that numbers new loans.
  A query returns rows in table order; the aggregates used below do not depend on it.
\<close>

record db =
  customers :: "customer list"
  loans :: "loan list"
  next_loan_pk :: nat

text \<open>\<open>Loan.objects.filter(customer=customer)\<close>\<close>

definition loans_of :: "db \<Rightarrow> customer \<Rightarrow> loan list" where
  "loans_of d c = filter (\<lambda>l. customer_id l = pk c) (loans d)"

text \<open>
  \<open>Loan.objects.filter(customer=customer, is_active=True)
     .aggregate(total=Sum('monthly_installment'))['total'] or Decimal('0')\<close>:
  the database adds the column exactly.
\<close>

definition current_emi_total :: "db \<Rightarrow> customer \<Rightarrow> rat" where
  "current_emi_total d c =
     sum_list (map monthly_installment
       (filter (\<lambda>l. customer_id l = pk c \<and> is_active l) (loans d)))"

section \<open>\<open>CreditScoreService.calculate\<close> (\<^verbatim>\<open>apps/loans/services.py\<close>)\<close>

text \<open>
  \<open>today\<close> stands for \<open>date.today()\<close>. The ratios are Python floats: \<open>0.7\<close> is
  \<open>float_of (7 / 10)\<close>, an \<open>int / int\<close> division and \<open>float(Decimal)\<close> are correctly
  rounded, and every product and sum is rounded again.
\<close>

definition calculate :: "db \<Rightarrow> customer \<Rightarrow> date \<Rightarrow> int" where
  "calculate d c today =
     (let ls = loans_of d c
      in if ls = [] then 50
         else
           let total_loans = int (length ls);
               active_loans = filter is_active ls;
               total_current_loan_amount = sum_list (map loan_amount active_loans)
           in if total_current_loan_amount > of_int (approved_limit c) then 0
              else
                let total_emis_due = sum_list (map tenure ls);
                    total_emis_on_time = sum_list (map emis_paid_on_time ls);
                    on_time_ratio =
                      (if total_emis_due > 0
                       then float_of (of_int total_emis_on_time / of_int total_emis_due)
                       else 0);
                    score_on_time = fmul on_time_ratio 30;
                    loan_count_ratio =
                      (if total_loans \<le> 2 then 1
                       else if total_loans \<le> 5 then float_of (7 / 10)
                       else if total_loans \<le> 10 then float_of (4 / 10)
                       else float_of (1 / 10));
                    score_num_loans = fmul loan_count_ratio 20;
                    current_year_loans =
                      int (length (filter (\<lambda>l. year (start_date l) = year today) ls));
                    activity_ratio =
                      (if current_year_loans = 0 then 1
                       else if current_year_loans \<le> 2 then float_of (7 / 10)
                       else if current_year_loans \<le> 4 then float_of (4 / 10)
                       else float_of (1 / 10));
                    score_activity = fmul activity_ratio 20;
                    total_loan_volume = sum_list (map loan_amount ls);
                    volume_score_ratio =
                      (if approved_limit c > 0
                       then let volume_ratio =
                                  fdiv (float_of total_loan_volume)
                                       (float_of (of_int (approved_limit c)))
                            in if volume_ratio \<le> 1 / 4 then 1
                               else if volume_ratio \<le> 1 / 2 then float_of (7 / 10)
                               else if volume_ratio \<le> 3 / 4 then float_of (4 / 10)
                               else if volume_ratio \<le> 1 then float_of (2 / 10)
                               else 0
                       else 0);
                    score_volume = fmul volume_score_ratio 30;
                    total_score =
                      py_round (fadd (fadd (fadd score_on_time score_num_loans) score_activity)
                                     score_volume)
                in max 0 (min 100 total_score))"

section \<open>\<open>EligibilityService.check\<close>\<close>

record eligibility =
  r_customer_id :: nat
  approval :: bool
  r_interest_rate :: rat
  corrected_interest_rate :: rat
  r_tenure :: int
  r_monthly_installment :: rat

definition build_response :: "nat \<Rightarrow> bool \<Rightarrow> rat \<Rightarrow> rat \<Rightarrow> int \<Rightarrow> rat \<Rightarrow> eligibility" where
  "build_response cid appr rate corrected tn emi =
     \<lparr>r_customer_id = cid, approval = appr, r_interest_rate = rate,
      corrected_interest_rate = corrected, r_tenure = tn, r_monthly_installment = emi\<rparr>"

text \<open>
  Steps 4 and 5 of \<open>check\<close>, the slab logic: the approval flag and the corrected rate
  from the credit score and the requested rate.
\<close>

definition slab :: "int \<Rightarrow> rat \<Rightarrow> bool \<times> rat" where
  "slab credit_score rate =
     (if credit_score > 50 then (True, rate)
      else if 30 < credit_score \<and> credit_score \<le> 50 then
        (if rate > 12 then (True, rate) else (True, 12))
      else if 10 < credit_score \<and> credit_score \<le> 30 then
        (if rate > 16 then (True, rate) else (True, 16))
      else (False, rate))"

definition emi_limit :: "customer \<Rightarrow> rat" where
  "emi_limit c = dec_mul (of_int (monthly_salary c)) (1 / 2)"

definition check :: "db \<Rightarrow> date \<Rightarrow> customer \<Rightarrow> rat \<Rightarrow> rat \<Rightarrow> int \<Rightarrow> error + eligibility" where
  "check d today c amount rate tn =
     (let credit_score = calculate d c today
      in if amount > of_int (approved_limit c) then
           (case calculate_emi amount rate tn of
              Inl e \<Rightarrow> Inl e
            | Inr new_emi \<Rightarrow> Inr (build_response (pk c) False rate rate tn new_emi))
         else
           (case calculate_emi amount rate tn of
              Inl e \<Rightarrow> Inl e
            | Inr new_emi \<Rightarrow>
                if current_emi_total d c \<ge> emi_limit c then
                  Inr (build_response (pk c) False rate rate tn new_emi)
                else
                  (case slab credit_score rate of
                     (approval0, corrected) \<Rightarrow>
                       (case calculate_emi amount corrected tn of
                          Inl e \<Rightarrow> Inl e
                        | Inr final_emi \<Rightarrow>
                            let approval1 =
                                  (if approval0 \<and>
                                      dec_add (current_emi_total d c) final_emi > emi_limit c
                                   then False else approval0)
                            in Inr (build_response (pk c) approval1 rate corrected tn
                                      final_emi)))))"

section \<open>\<open>LoanService\<close>\<close>

text \<open>\<open>str(n)\<close> of a Python int, for the f-string of the rejection message.\<close>

fun str_nat :: "nat \<Rightarrow> string" where
  "str_nat n =
     (if n < 10 then [''0123456789'' ! n]
      else str_nat (n div 10) @ [''0123456789'' ! (n mod 10)])"

definition str_int :: "int \<Rightarrow> string" where
  "str_int i = (if i < 0 then ''-'' @ str_nat (nat (- i)) else str_nat (nat i))"

text \<open>\<open>' '.join(reasons)\<close>\<close>

fun join_space :: "string list \<Rightarrow> string" where
  "join_space [] = []"
| "join_space [s] = s"
| "join_space (s # t # ss) = s @ '' '' @ join_space (t # ss)"

definition get_rejection_message :: "db \<Rightarrow> date \<Rightarrow> customer \<Rightarrow> string" where
  "get_rejection_message d today c =
     (let current_emi = current_emi_total d c;
          limit = emi_limit c;
          credit_score = calculate d c today;
          reasons =
            (if credit_score \<le> 10
             then [''Credit score too low ('' @ str_int credit_score @ ''/100).'']
             else []) @
            (if current_emi \<ge> limit
             then [''Current EMIs exceed 50% of monthly income.'']
             else [])
      in if reasons \<noteq> [] then join_space reasons
         else ''Loan not approved based on eligibility criteria.'')"

text \<open>
  \<open>today + relativedelta(months=tenure)\<close> for a tenure of at least one month: whole
  years and the remaining months are added, the day is cut to the length of the target
  month, and a year past 9999 is a \<open>ValueError\<close> of \<open>date.replace\<close>.
\<close>

definition is_leap :: "int \<Rightarrow> bool" where
  "is_leap y = (y mod 4 = 0 \<and> (y mod 100 \<noteq> 0 \<or> y mod 400 = 0))"

definition days_in_month :: "int \<Rightarrow> int \<Rightarrow> int" where
  "days_in_month y m =
     (if m = 2 then (if is_leap y then 29 else 28)
      else if m = 4 \<or> m = 6 \<or> m = 9 \<or> m = 11 then 30 else 31)"

definition add_months :: "date \<Rightarrow> int \<Rightarrow> error + date" where
  "add_months dt months =
     (let years = months div 12;
          m0 = month dt + months mod 12;
          y = (if m0 > 12 then year dt + years + 1 else year dt + years);
          m = (if m0 > 12 then m0 - 12 else m0);
          dd = min (days_in_month y m) (day dt)
      in if y > 9999 then Inl ValueError else Inr \<lparr>year = y, month = m, day = dd\<rparr>)"

record outcome =
  loan_id :: "nat option"
  o_customer_id :: nat
  loan_approved :: bool
  message :: string
  o_monthly_installment :: "rat option"

text \<open>
  The statements of the database layer that can raise during one call. \<open>fails op\<close> says
  that \<open>op\<close> raises in this call (a constraint violation, a value out of the column's
  range, a lost connection): the environment decides it, the model ranges over it.
\<close>

datatype db_op = SelectForUpdate | InsertLoan | SaveCustomer | Commit

text \<open>
  The body of \<open>create_loan\<close>, statement by statement; the database it returns is the
  one the statements executed so far have left.
\<close>

definition create_loan_body ::
  "(db_op \<Rightarrow> bool) \<Rightarrow> date \<Rightarrow> nat \<Rightarrow> rat \<Rightarrow> rat \<Rightarrow> int \<Rightarrow> db \<Rightarrow> db \<times> (error + outcome)" where
  "create_loan_body fails today cid amount rate tn d =
     (if fails SelectForUpdate then (d, Inl StorageError)
      else
        (case find (\<lambda>c. pk c = cid) (customers d) of
           None \<Rightarrow> (d, Inl CustomerNotFoundError)
         | Some c \<Rightarrow>
             (case check d today c amount rate tn of
                Inl e \<Rightarrow> (d, Inl e)
              | Inr el \<Rightarrow>
                  if \<not> approval el then
                    (d, Inr \<lparr>loan_id = None, o_customer_id = cid, loan_approved = False,
                             message = get_rejection_message d today c,
                             o_monthly_installment = None\<rparr>)
                  else
                    (case add_months today tn of
                       Inl e \<Rightarrow> (d, Inl e)
                     | Inr end_dt \<Rightarrow>
                         if fails InsertLoan then (d, Inl StorageError)
                         else
                           let new_loan =
                                 \<lparr>loan_pk = next_loan_pk d, customer_id = pk c,
                                  loan_amount = amount, tenure = tn,
                                  interest_rate = corrected_interest_rate el,
                                  monthly_installment = r_monthly_installment el,
                                  emis_paid_on_time = 0, start_date = today,
                                  end_date = end_dt, is_active = True\<rparr>;
                               d1 = d\<lparr>loans := loans d @ [new_loan],
                                       next_loan_pk := Suc (next_loan_pk d)\<rparr>
                           in if fails SaveCustomer then (d1, Inl StorageError)
                              else
                                let c1 = c\<lparr>current_debt := dec_add (current_debt c) amount\<rparr>;
                                    d2 = d1\<lparr>customers :=
                                              map (\<lambda>x. if pk x = pk c then c1 else x)
                                                  (customers d1)\<rparr>
                                in (d2, Inr \<lparr>loan_id = Some (loan_pk new_loan),
                                             o_customer_id = cid, loan_approved = True,
                                             message = ''Loan approved successfully.'',
                                             o_monthly_installment =
                                               Some (r_monthly_installment el)\<rparr>)))))"

text \<open>
  \<open>@transaction.atomic\<close>: the block's writes are kept when it returns and the commit
  succeeds; when the block raises, or the commit does, the database is rolled back to
  what it was and the exception goes on to the caller.
\<close>

definition atomic ::
  "(db_op \<Rightarrow> bool) \<Rightarrow> (db \<Rightarrow> db \<times> (error + 'a)) \<Rightarrow> db \<Rightarrow> db \<times> (error + 'a)" where
  "atomic fails body d =
     (case body d of
        (d1, Inl e) \<Rightarrow> (d, Inl e)
      | (d1, Inr v) \<Rightarrow> if fails Commit then (d, Inl StorageError) else (d1, Inr v))"

definition create_loan ::
  "(db_op \<Rightarrow> bool) \<Rightarrow> date \<Rightarrow> nat \<Rightarrow> rat \<Rightarrow> rat \<Rightarrow> int \<Rightarrow> db \<Rightarrow> db \<times> (error + outcome)" where
  "create_loan fails today cid amount rate tn d =
     atomic fails (create_loan_body fails today cid amount rate tn) d"

section \<open>Column types and the installment of the specification\<close>

text \<open>
  The decimal columns are \<open>DecimalField(max_digits=15, decimal_places=2)\<close> and the
  request serializers accept amounts with at most two decimal places;
  \<open>PositiveIntegerField\<close> holds 0 to 2147483647.
\<close>

definition two_places :: "rat \<Rightarrow> bool" where
  "two_places x = (of_int \<lfloor>x * 100\<rfloor> = x * 100)"

definition decimal_15_2 :: "rat \<Rightarrow> bool" where
  "decimal_15_2 x = (two_places x \<and> \<bar>x\<bar> < 10 ^ 13)"

definition positive_integer :: "int \<Rightarrow> bool" where
  "positive_integer i = (0 \<le> i \<and> i \<le> 2147483647)"

text \<open>
  The installment as section 4.1 of the specification words it, in exact arithmetic:
  \<open>P / n\<close> at rate 0, else \<open>P r (1+r)^n / ((1+r)^n - 1)\<close> with \<open>r = rate / 1200\<close>, rounded
  half-up to two decimal places. It is compared with \<open>calculate_emi\<close> below.
\<close>

definition half_up_2 :: "rat \<Rightarrow> rat" where
  "half_up_2 x = of_int (round_half_up (x * 100)) / 100"

definition emi_spec :: "rat \<Rightarrow> rat \<Rightarrow> int \<Rightarrow> rat" where
  "emi_spec P rate n =
     (if rate = 0 then half_up_2 (P / of_int n)
      else let r = rate / 1200
           in half_up_2 (P * r * (1 + r) ^ nat n / ((1 + r) ^ nat n - 1)))"

section \<open>Test fixtures\<close>

text \<open>
  The customers of \<^verbatim>\<open>tests/test_create_loan.py\<close> (salary 100000, limit 3600000) and of
  \<^verbatim>\<open>tests/test_credit_score.py\<close> (salary 50000, limit 1800000), and loans of those tests.
\<close>

definition today_a :: date where
  "today_a = \<lparr>year = 2026, month = 1, day = 15\<rparr>"

definition customer_a :: customer where
  "customer_a = \<lparr>pk = 1, monthly_salary = 100000, approved_limit = 3600000, current_debt = 0\<rparr>"

definition db_a :: db where
  "db_a = \<lparr>customers = [customer_a], loans = [], next_loan_pk = 1\<rparr>"

definition no_faults :: "db_op \<Rightarrow> bool" where
  "no_faults op = False"

text \<open>A call in which the save of the customer row fails.\<close>

definition save_fails_only :: "db_op \<Rightarrow> bool" where
  "save_fails_only op = (op = SaveCustomer)"

definition customer_b :: customer where
  "customer_b = \<lparr>pk = 1, monthly_salary = 50000, approved_limit = 1800000, current_debt = 0\<rparr>"

text \<open>A closed loan of 100000 over 4 months, 3 installments paid on time.\<close>

definition loan_closed :: loan where
  "loan_closed =
     \<lparr>loan_pk = 1, customer_id = 1, loan_amount = 100000, tenure = 4, interest_rate = 10,
      monthly_installment = 25521, emis_paid_on_time = 3,
      start_date = \<lparr>year = 2023, month = 1, day = 1\<rparr>,
      end_date = \<lparr>year = 2023, month = 5, day = 1\<rparr>, is_active = False\<rparr>"

definition db_tie :: db where
  "db_tie = \<lparr>customers = [customer_b], loans = [loan_closed], next_loan_pk = 2\<rparr>"

text \<open>
  The active loan of \<open>test_current_loans_exceed_limit_returns_zero\<close>: 2000000 against a
  limit of 1800000, installment 42000 against a salary of 50000.
\<close>

definition loan_over :: loan where
  "loan_over =
     \<lparr>loan_pk = 1, customer_id = 1, loan_amount = 2000000, tenure = 60, interest_rate = 10,
      monthly_installment = 42000, emis_paid_on_time = 5,
      start_date = \<lparr>year = 2023, month = 1, day = 1\<rparr>,
      end_date = \<lparr>year = 2028, month = 1, day = 1\<rparr>, is_active = True\<rparr>"

definition db_over :: db where
  "db_over = \<lparr>customers = [customer_b], loans = [loan_over], next_loan_pk = 2\<rparr>"

text \<open>
  The active loan of \<open>test_create_loan_rejected\<close>: an installment of 55000 against a
  salary of 100000.
\<close>

definition loan_busy :: loan where
  "loan_busy =
     \<lparr>loan_pk = 1, customer_id = 1, loan_amount = 2000000, tenure = 60, interest_rate = 10,
      monthly_installment = 55000, emis_paid_on_time = 5,
      start_date = \<lparr>year = 2023, month = 1, day = 1\<rparr>,
      end_date = \<lparr>year = 2028, month = 1, day = 1\<rparr>, is_active = True\<rparr>"

definition db_busy :: db where
  "db_busy = \<lparr>customers = [customer_a], loans = [loan_busy], next_loan_pk = 2\<rparr>"

text \<open>The same customer with a closed loan beside the active one.\<close>

definition db_mixed :: db where
  "db_mixed = \<lparr>customers = [customer_a], loans = [loan_closed, loan_busy\<lparr>loan_pk := 2\<rparr>],
     next_loan_pk = 3\<rparr>"


definition customer_one :: customer where
  "customer_one =
     \<lparr>pk = 1, monthly_salary = 100000, approved_limit = 3600000, current_debt = 2000000\<rparr>"



section \<open>Rounding: lemmas\<close>

subsection \<open>Rounding a rational to an integer\<close>

lemma rhe_near:
  assumes "\<bar>q - of_int m\<bar> < 1 / 2"
  shows "round_half_even q = m"
proof -
  from assms have lo: "of_int m - 1 / 2 < q" and hi: "q < of_int m + 1 / 2"
    by linarith+
  have "\<lfloor>q\<rfloor> = m \<or> \<lfloor>q\<rfloor> = m - 1"
  proof (cases "of_int m \<le> q")
    case True
    with hi have "\<lfloor>q\<rfloor> = m" by (simp add: floor_eq_iff)
    then show ?thesis ..
  next
    case False
    with lo have "\<lfloor>q\<rfloor> = m - 1" by (simp add: floor_eq_iff)
    then show ?thesis ..
  qed
  then show ?thesis
  proof
    assume f: "\<lfloor>q\<rfloor> = m"
    from hi have "q - of_int m < 1 / 2" by linarith
    then show ?thesis using f by (simp add: round_half_even_def Let_def)
  next
    assume f: "\<lfloor>q\<rfloor> = m - 1"
    from lo have "1 / 2 < q - of_int (m - 1)" by simp
    then show ?thesis using f by (auto simp: round_half_even_def Let_def)
  qed
qed

lemma rhe_of_int [simp]: "round_half_even (of_int m) = m"
  by (rule rhe_near) simp

lemma rhe_tie_even:
  assumes "\<bar>q - of_int m\<bar> = 1 / 2" "even m"
  shows "round_half_even q = m"
proof -
  from assms(1) have "q = of_int m + 1 / 2 \<or> q = of_int m - 1 / 2"
    by (auto simp: abs_if split: if_splits)
  then show ?thesis
  proof
    assume q: "q = of_int m + 1 / 2"
    then have f: "\<lfloor>q\<rfloor> = m" by (simp add: floor_eq_iff)
    show ?thesis using f q assms(2) by (simp add: round_half_even_def Let_def)
  next
    assume q: "q = of_int m - 1 / 2"
    then have f: "\<lfloor>q\<rfloor> = m - 1" by (simp add: floor_eq_iff)
    show ?thesis using f q assms(2) by (simp add: round_half_even_def Let_def)
  qed
qed

lemma rhe_error: "\<bar>of_int (round_half_even q) - q\<bar> \<le> 1 / 2"
proof -
  have "of_int \<lfloor>q\<rfloor> \<le> q" "q < of_int \<lfloor>q\<rfloor> + 1" by linarith+
  then show ?thesis by (auto simp: round_half_even_def Let_def abs_le_iff)
qed

lemma rhe_mono:
  assumes "q \<le> r"
  shows "round_half_even q \<le> round_half_even r"
proof (rule ccontr)
  assume "\<not> ?thesis"
  then have lt: "round_half_even r + 1 \<le> round_half_even q" by simp
  have eq: "\<bar>of_int (round_half_even q) - q\<bar> \<le> 1 / 2" "\<bar>of_int (round_half_even r) - r\<bar> \<le> 1 / 2"
    by (rule rhe_error)+
  from lt have "(of_int (round_half_even r) :: rat) + 1 \<le> of_int (round_half_even q)"
    by (metis of_int_1 of_int_add of_int_le_iff)
  with eq assms have a: "q = r" and b: "of_int (round_half_even q) = q + 1 / 2"
    and c: "of_int (round_half_even r) = r - 1 / 2"
    by (auto simp: abs_le_iff)
  from a b c show False by simp
qed

lemma rhe_minus: "round_half_even (- q) = - round_half_even q"
proof (cases "q = of_int \<lfloor>q\<rfloor>")
  case True
  then show ?thesis by (metis of_int_minus rhe_of_int)
next
  case False
  then have fl: "\<lfloor>- q\<rfloor> = - \<lfloor>q\<rfloor> - 1"
    by (simp add: floor_minus ceiling_altdef)
  have b: "of_int \<lfloor>q\<rfloor> \<le> q" "q < of_int \<lfloor>q\<rfloor> + 1" by linarith+
  show ?thesis
    using b fl False by (auto simp: round_half_even_def Let_def)
qed

subsection \<open>The exponent of the leading digit\<close>

lemma adjusted_bounds:
  assumes b: "2 \<le> b" and x: "x \<noteq> 0"
  shows "of_nat b powi adjusted b x \<le> \<bar>x\<bar>" and "\<bar>x\<bar> < of_nat b powi (adjusted b x + 1)"
proof -
  obtain n d where qd: "quotient_of \<bar>x\<bar> = (n, d)" by force
  have dpos: "0 < d" using quotient_of_denom_pos[OF qd] .
  have xeq: "\<bar>x\<bar> = of_int n / of_int d" using quotient_of_div[OF qd] .
  have npos: "0 < n"
  proof (rule ccontr)
    assume "\<not> 0 < n"
    then have "(of_int n :: rat) \<le> 0" by simp
    with dpos have "\<bar>x\<bar> \<le> 0" unfolding xeq by (simp add: divide_le_0_iff)
    with x show False by simp
  qed
  define B :: rat where "B = of_nat b"
  have B1: "1 < B" using b by (simp add: B_def)
  have B0: "B \<noteq> 0" "0 < B" using B1 by auto
  define ln where "ln = floorlog b (nat n)"
  define ld where "ld = floorlog b (nat d)"
  have bn: "b ^ (ln - 1) \<le> nat n" "nat n < b ^ ln"
    using floorlog_bounds[of "nat n" b] npos b by (auto simp: ln_def)
  have bd: "b ^ (ld - 1) \<le> nat d" "nat d < b ^ ld"
    using floorlog_bounds[of "nat d" b] dpos b by (auto simp: ld_def)
  have "ln \<noteq> 0" using npos b by (simp add: ln_def floorlog_eq_zero_iff)
  then have ln1: "1 \<le> ln" by simp
  have "ld \<noteq> 0" using dpos b by (simp add: ld_def floorlog_eq_zero_iff)
  then have ld1: "1 \<le> ld" by simp
  have N: "(of_int n :: rat) = of_nat (nat n)" using npos by simp
  have D: "(of_int d :: rat) = of_nat (nat d)" using dpos by simp
  have rn: "B ^ (ln - 1) \<le> of_int n" "of_int n < B ^ ln"
    unfolding N B_def using bn by (metis of_nat_le_iff of_nat_power, metis of_nat_less_iff of_nat_power)
  have rd: "B ^ (ld - 1) \<le> of_int d" "of_int d < B ^ ld"
    unfolding D B_def using bd by (metis of_nat_le_iff of_nat_power, metis of_nat_less_iff of_nat_power)
  have Dpos: "(0::rat) < of_int d" using dpos by simp
  have Npos: "(0::rat) < of_int n" using npos by simp
  define k where "k = int ln - int ld"
  have adj: "adjusted b x = (if B powi k \<le> \<bar>x\<bar> then k else k - 1)"
    by (simp add: adjusted_def qd Let_def k_def ln_def ld_def B_def)
  have up: "\<bar>x\<bar> < B powi (k + 1)"
  proof -
    have "of_int n / of_int d < B ^ ln / of_int d"
      using rn(2) Dpos by (simp add: divide_strict_right_mono)
    also have "\<dots> \<le> B ^ ln / B ^ (ld - 1)"
      using rd(1) B0 by (simp add: frac_le)
    also have "\<dots> = B powi (int ln - int (ld - 1))"
      using B0 by (simp add: power_int_diff)
    also have "int ln - int (ld - 1) = k + 1" using ld1 by (simp add: k_def)
    finally show ?thesis by (simp add: xeq)
  qed
  have lo: "B powi (k - 1) \<le> \<bar>x\<bar>"
  proof -
    have "k - 1 = int (ln - 1) - int ld"
      using ln1 by (simp add: k_def)
    then have "B powi (k - 1) = B powi (int (ln - 1) - int ld)"
      by simp
    also have "\<dots> = B ^ (ln - 1) / B ^ ld"
      using B0 by (simp add: power_int_diff)
    also have "\<dots> \<le> of_int n / B ^ ld"
      using rn(1) B0 by (simp add: divide_right_mono)
    also have "\<dots> \<le> of_int n / of_int d"
      using rd(2) Npos Dpos by (simp add: frac_le)
    finally show ?thesis by (simp add: xeq)
  qed
  show "of_nat b powi adjusted b x \<le> \<bar>x\<bar>"
    using lo by (simp add: adj B_def[symmetric])
  show "\<bar>x\<bar> < of_nat b powi (adjusted b x + 1)"
    using up by (auto simp: adj B_def[symmetric])
qed

lemma powi_less_imp_less:
  fixes B :: rat
  assumes "1 < B" "B powi j < B powi k"
  shows "j < k"
proof (rule ccontr)
  assume "\<not> j < k"
  then have "k \<le> j" by simp
  then have "B powi k \<le> B powi j" using assms(1) by (simp add: power_int_increasing)
  with assms(2) show False by simp
qed

lemma powi_bounds_unique:
  fixes B :: rat
  assumes "1 < B" "B powi j \<le> y" "y < B powi (j + 1)" "B powi k \<le> y" "y < B powi (k + 1)"
  shows "j = k"
proof -
  have "B powi j < B powi (k + 1)" using assms by linarith
  then have 1: "j < k + 1" using assms(1) by (rule powi_less_imp_less[rotated])
  have "B powi k < B powi (j + 1)" using assms by linarith
  then have 2: "k < j + 1" using assms(1) by (rule powi_less_imp_less[rotated])
  from 1 2 show ?thesis by simp
qed

lemma adjusted_eqI:
  assumes b: "2 \<le> b" and lo: "of_nat b powi k \<le> \<bar>x\<bar>" and hi: "\<bar>x\<bar> < of_nat b powi (k + 1)"
  shows "adjusted b x = k"
proof -
  have B1: "1 < (of_nat b :: rat)" using b by simp
  have "0 < (of_nat b :: rat) powi k" using B1 by (simp add: zero_less_power_int)
  with lo have x: "x \<noteq> 0" by auto
  show ?thesis
    using powi_bounds_unique[OF B1 adjusted_bounds[OF b x] lo hi] .
qed

subsection \<open>Rounding to significant digits\<close>

lemma round_digits_nearI:
  assumes b: "2 \<le> b"
    and lo: "of_nat b powi (e + int p - 1) \<le> \<bar>x\<bar>"
    and hi: "\<bar>x\<bar> < of_nat b powi (e + int p)"
    and near: "\<bar>x / of_nat b powi e - of_int m\<bar> < 1 / 2"
  shows "round_digits b p x = of_int m * of_nat b powi e"
proof -
  have B1: "1 < (of_nat b :: rat)" using b by simp
  have "0 < (of_nat b :: rat) powi (e + int p - 1)" using B1 by (simp add: zero_less_power_int)
  with lo have x: "x \<noteq> 0" by auto
  have "adjusted b x = e + int p - 1"
    using adjusted_eqI[OF b lo] hi by simp
  then have "adjusted b x - (int p - 1) = e" by simp
  then show ?thesis
    using x rhe_near[OF near] by (simp add: round_digits_def Let_def)
qed


lemma round_digits_exact:
  assumes b: "2 \<le> b" and x: "x = of_int m * of_nat b powi j" and m: "\<bar>m\<bar> < int b ^ p"
  shows "round_digits b p x = x"
proof (cases "x = 0")
  case True
  then show ?thesis by (simp add: round_digits_def)
next
  case False
  define B :: rat where "B = of_nat b"
  have B1: "1 < B" using b by (simp add: B_def)
  have B0: "B \<noteq> 0" "0 < B" using B1 by auto
  define a where "a = adjusted b x"
  define e where "e = a - (int p - 1)"
  have "B powi a \<le> \<bar>x\<bar>" using adjusted_bounds(1)[OF b False] by (simp add: a_def B_def)
  also have "\<bar>x\<bar> = of_int \<bar>m\<bar> * B powi j"
    using B0 by (simp add: x B_def abs_mult power_int_abs)
  also have "\<dots> < of_int (int b ^ p) * B powi j"
  proof -
    have "(of_int \<bar>m\<bar> :: rat) < of_int (int b ^ p)" using m by (simp only: of_int_less_iff)
    moreover have "0 < B powi j" using B0 by (simp add: zero_less_power_int)
    ultimately show ?thesis by (rule mult_strict_right_mono)
  qed
  also have "\<dots> = B powi (int p + j)"
    using B0 by (simp add: B_def power_int_add)
  finally have "a < int p + j" using B1 by (rule powi_less_imp_less[rotated])
  then have ej: "e \<le> j" by (simp add: e_def)
  have "x / B powi e = of_int m * B powi (j - e)"
    using B0 by (simp add: x B_def power_int_diff)
  also have "B powi (j - e) = of_int (int b ^ nat (j - e))"
    using ej by (simp add: B_def power_int_def)
  finally have q: "x / B powi e = of_int (m * int b ^ nat (j - e))" by simp
  have "round_digits b p x = of_int (round_half_even (x / B powi e)) * B powi e"
    using False by (simp add: round_digits_def Let_def a_def e_def B_def)
  also have "\<dots> = x / B powi e * B powi e"
    unfolding q rhe_of_int ..
  also have "\<dots> = x" using B0 by simp
  finally show ?thesis .
qed

lemma round_digits_minus: "round_digits b p (- x) = - round_digits b p x"
  by (simp add: round_digits_def adjusted_def Let_def rhe_minus)

lemma round_digits_nonneg:
  assumes "0 \<le> x"
  shows "0 \<le> round_digits b p x"
proof (cases "x = 0")
  case True
  then show ?thesis by (simp add: round_digits_def)
next
  case False
  define e where "e = adjusted b x - (int p - 1)"
  have "0 \<le> x / of_nat b powi e" using assms by (simp add: zero_le_power_int)
  then have "round_half_even 0 \<le> round_half_even (x / of_nat b powi e)" by (rule rhe_mono)
  then have "0 \<le> round_half_even (x / of_nat b powi e)"
    using rhe_of_int[of 0] by simp
  then have "(0::rat) \<le> of_int (round_half_even (x / of_nat b powi e)) * of_nat b powi e"
    by (simp add: zero_le_power_int)
  then show ?thesis using False by (simp add: round_digits_def Let_def e_def)
qed

lemma round_digits_ge_powi:
  assumes b: "2 \<le> b" and p: "1 \<le> p" and x: "of_nat b powi k \<le> x"
  shows "of_nat b powi k \<le> round_digits b p x"
proof -
  define B :: rat where "B = of_nat b"
  have B1: "1 < B" using b by (simp add: B_def)
  have B0: "B \<noteq> 0" "0 < B" using B1 by auto
  have "0 < B powi k" using B0 by (simp add: zero_less_power_int)
  then have xpos: "0 < x" using x by (simp add: B_def)
  then have x0: "x \<noteq> 0" by simp
  define a where "a = adjusted b x"
  define e where "e = a - (int p - 1)"
  have bnd: "B powi a \<le> x" "x < B powi (a + 1)"
    using adjusted_bounds[OF b x0] xpos by (simp_all add: a_def B_def)
  have "B powi k < B powi (a + 1)" using x bnd(2) by (simp add: B_def)
  then have "k < a + 1" using B1 by (rule powi_less_imp_less[rotated])
  then have ka: "k \<le> a" by simp
  have "of_int (int b ^ (p - 1)) = B powi (int p - 1)"
    using p by (simp add: B_def power_int_def nat_diff_distrib')
  also have "\<dots> = B powi a / B powi e"
    using B0 by (simp add: e_def flip: power_int_diff)
  also have "\<dots> \<le> x / B powi e"
    using bnd(1) B0 by (simp add: divide_right_mono)
  finally have "round_half_even (of_int (int b ^ (p - 1))) \<le> round_half_even (x / B powi e)"
    by (rule rhe_mono)
  then have "int b ^ (p - 1) \<le> round_half_even (x / B powi e)" by (simp only: rhe_of_int)
  then have "(of_int (int b ^ (p - 1)) :: rat) \<le> of_int (round_half_even (x / B powi e))"
    by (simp only: of_int_le_iff)
  then have "of_int (int b ^ (p - 1)) * B powi e \<le> of_int (round_half_even (x / B powi e)) * B powi e"
    using B0 by (simp add: mult_right_mono)
  moreover have "of_int (int b ^ (p - 1)) * B powi e = B powi a"
  proof -
    have "of_int (int b ^ (p - 1)) = B powi (int p - 1)"
      using p by (simp add: B_def power_int_def nat_diff_distrib')
    then show ?thesis using B0 by (simp add: e_def flip: power_int_add)
  qed
  moreover have "round_digits b p x = of_int (round_half_even (x / B powi e)) * B powi e"
    using x0 by (simp add: round_digits_def Let_def a_def e_def B_def)
  moreover have "B powi k \<le> B powi a" using ka B1 by (simp add: power_int_increasing)
  ultimately show ?thesis by (simp add: B_def)
qed

lemma round_digits_unfold:
  assumes "x \<noteq> 0"
  shows "round_digits b p x =
    of_int (round_half_even (x / of_nat b powi (adjusted b x - (int p - 1)))) *
      of_nat b powi (adjusted b x - (int p - 1))"
  using assms by (simp add: round_digits_def Let_def)

lemma round_digits_le_powi:
  assumes b: "2 \<le> b" and p: "1 \<le> p" and xpos: "0 < x" and x: "x \<le> of_nat b powi k"
  shows "round_digits b p x \<le> of_nat b powi k"
proof (cases "x = of_nat b powi k")
  case True
  have "round_digits b p x = x"
  proof (rule round_digits_exact[OF b])
    show "x = of_int 1 * of_nat b powi k" using True by simp
    have "(1::int) < int b ^ p" using b p by (simp add: one_less_power)
    then show "\<bar>1::int\<bar> < int b ^ p" by simp
  qed
  then show ?thesis using True by simp
next
  case False
  define B :: rat where "B = of_nat b"
  have B1: "1 < B" using b by (simp add: B_def)
  have B0: "B \<noteq> 0" "0 < B" using B1 by auto
  have x0: "x \<noteq> 0" using xpos by simp
  define a where "a = adjusted b x"
  define e where "e = a - (int p - 1)"
  have bnd: "B powi a \<le> x" "x < B powi (a + 1)"
    using adjusted_bounds[OF b x0] xpos by (simp_all add: a_def B_def)
  have "x < B powi k" using False x by (simp add: B_def)
  with bnd(1) have "B powi a < B powi k" by simp
  then have "a < k" using B1 by (rule powi_less_imp_less[rotated])
  then have ak: "a + 1 \<le> k" by simp
  have pe: "of_int (int b ^ p) * B powi e = B powi (a + 1)"
  proof -
    have "of_int (int b ^ p) = B powi (int p)" by (simp add: B_def)
    then have "of_int (int b ^ p) * B powi e = B powi (int p + e)"
      using B0 by (simp add: power_int_add)
    also have "int p + e = a + 1" by (simp add: e_def)
    finally show ?thesis .
  qed
  have "x / B powi e \<le> B powi (a + 1) / B powi e"
    using bnd(2) B0 by (simp add: divide_right_mono)
  also have "\<dots> = of_int (int b ^ p)"
    using pe B0 by (simp add: field_simps)
  finally have "round_half_even (x / B powi e) \<le> round_half_even (of_int (int b ^ p))"
    by (rule rhe_mono)
  then have "round_half_even (x / B powi e) \<le> int b ^ p" by (simp only: rhe_of_int)
  then have "(of_int (round_half_even (x / B powi e)) :: rat) \<le> of_int (int b ^ p)"
    by (simp only: of_int_le_iff)
  then have "of_int (round_half_even (x / B powi e)) * B powi e \<le> of_int (int b ^ p) * B powi e"
    using B0 by (simp add: mult_right_mono)
  also have "\<dots> = B powi (a + 1)" by (rule pe)
  also have "\<dots> \<le> B powi k" using ak B1 by (simp add: power_int_increasing)
  finally show ?thesis
    using round_digits_unfold[OF x0, of b p] by (simp add: a_def e_def B_def)
qed

lemma round_digits_mono_pos:
  assumes b: "2 \<le> b" and p: "1 \<le> p" and xpos: "0 < x" and xy: "x \<le> y"
  shows "round_digits b p x \<le> round_digits b p y"
proof -
  define B :: rat where "B = of_nat b"
  have B1: "1 < B" using b by (simp add: B_def)
  have B0: "B \<noteq> 0" "0 < B" using B1 by auto
  have ypos: "0 < y" using xpos xy by simp
  have x0: "x \<noteq> 0" and y0: "y \<noteq> 0" using xpos ypos by simp_all
  define a where "a = adjusted b x"
  define a' where "a' = adjusted b y"
  have bx: "B powi a \<le> x" "x < B powi (a + 1)"
    using adjusted_bounds[OF b x0] xpos by (simp_all add: a_def B_def)
  have by': "B powi a' \<le> y" "y < B powi (a' + 1)"
    using adjusted_bounds[OF b y0] ypos by (simp_all add: a'_def B_def)
  have "B powi a < B powi (a' + 1)" using bx(1) xy by'(2) by linarith
  then have "a < a' + 1" using B1 by (rule powi_less_imp_less[rotated])
  then consider "a = a'" | "a + 1 \<le> a'" by linarith
  then show ?thesis
  proof cases
    case 1
    define e where "e = a - (int p - 1)"
    have "x / B powi e \<le> y / B powi e" using xy B0 by (simp add: divide_right_mono)
    then have "round_half_even (x / B powi e) \<le> round_half_even (y / B powi e)" by (rule rhe_mono)
    then have "(of_int (round_half_even (x / B powi e)) :: rat) \<le> of_int (round_half_even (y / B powi e))"
      by (simp only: of_int_le_iff)
    then have "of_int (round_half_even (x / B powi e)) * B powi e
        \<le> of_int (round_half_even (y / B powi e)) * B powi e"
      using B0 by (simp add: mult_right_mono)
    then show ?thesis
      using round_digits_unfold[OF x0, of b p] round_digits_unfold[OF y0, of b p] 1
      by (simp add: a_def a'_def e_def B_def)
  next
    case 2
    have "round_digits b p x \<le> B powi (a + 1)"
      unfolding B_def using b p xpos bx(2) by (intro round_digits_le_powi) (simp_all add: B_def)
    also have "\<dots> \<le> B powi a'" using 2 B1 by (simp add: power_int_increasing)
    also have "\<dots> \<le> round_digits b p y"
      unfolding B_def using b p by'(1) by (intro round_digits_ge_powi) (simp_all add: B_def)
    finally show ?thesis .
  qed
qed

lemma round_digits_nonpos:
  assumes "x \<le> 0"
  shows "round_digits b p x \<le> 0"
proof -
  have "0 \<le> round_digits b p (- x)" using assms by (intro round_digits_nonneg) simp
  then show ?thesis by (simp add: round_digits_minus)
qed

lemma round_digits_mono:
  assumes b: "2 \<le> b" and p: "1 \<le> p" and xy: "x \<le> y"
  shows "round_digits b p x \<le> round_digits b p y"
proof -
  consider "0 < x" | "x \<le> 0" "0 \<le> y" | "y < 0" using xy by linarith
  then show ?thesis
  proof cases
    case 1
    then show ?thesis using round_digits_mono_pos[OF b p _ xy] by simp
  next
    case 2
    have "round_digits b p x \<le> 0" using 2(1) by (rule round_digits_nonpos)
    also have "0 \<le> round_digits b p y" using 2(2) by (rule round_digits_nonneg)
    finally show ?thesis .
  next
    case 3
    then have "0 < - y" "- y \<le> - x" using xy by simp_all
    then have "round_digits b p (- y) \<le> round_digits b p (- x)"
      using b p by (intro round_digits_mono_pos)
    then show ?thesis by (simp add: round_digits_minus)
  qed
qed


section \<open>Evaluating the arithmetic on numerals\<close>

declare bits_msb.simps [simp del]
declare str_nat.simps [simp del]

lemma floor_rat_numeral_div [simp]:
  "\<lfloor>numeral a / numeral b :: rat\<rfloor> = numeral a div numeral b"
  using floor_divide_of_int_eq[of "numeral a" "numeral b", where ?'a = rat] by simp

lemma floor_rat_neg_numeral_div [simp]:
  "\<lfloor>- (numeral a / numeral b) :: rat\<rfloor> = - numeral a div numeral b"
  using floor_divide_of_int_eq[of "- numeral a" "numeral b", where ?'a = rat] by simp

lemma dec_fix_decimal:
  assumes "\<bar>m\<bar> < 10 ^ 28"
  shows "dec_fix (of_int m / 10 ^ k) = of_int m / 10 ^ k"
proof -
  have "(of_int m / 10 ^ k :: rat) = of_int m * of_nat 10 powi (- int k)"
    by (simp add: power_int_minus divide_inverse)
  moreover have "\<bar>m\<bar> < int 10 ^ 28" using assms by simp
  ultimately show ?thesis
    unfolding dec_fix_def prec_def by (intro round_digits_exact) auto
qed

lemma dec_fix_0 [simp]: "dec_fix 0 = 0"
  by (simp add: dec_fix_def round_digits_def)

lemma float_of_0 [simp]: "float_of 0 = 0"
  by (simp add: float_of_def round_digits_def)

lemma float_of_dyadic:
  assumes "\<bar>m\<bar> < 2 ^ 53"
  shows "float_of (of_int m / 2 ^ k) = of_int m / 2 ^ k"
proof -
  have "(of_int m / 2 ^ k :: rat) = of_int m * of_nat 2 powi (- int k)"
    by (simp add: power_int_minus divide_inverse)
  moreover have "\<bar>m\<bar> < int 2 ^ 53" using assms by simp
  ultimately show ?thesis
    unfolding float_of_def by (intro round_digits_exact) auto
qed

lemma quantize_eval:
  assumes "round_half_up (x * 100) = k" "\<bar>k\<bar> < 10 ^ 28"
  shows "quantize x = Inr (of_int k / 100)"
proof -
  have "\<bar>of_int k / 100 :: rat\<bar> < 10 ^ 26"
  proof -
    have "(of_int \<bar>k\<bar> :: rat) < of_int (10 ^ 28)" using assms(2) by (simp only: of_int_less_iff)
    then show ?thesis by simp
  qed
  then show ?thesis using assms(1) by (simp add: quantize_def prec_def Let_def)
qed

lemma dec_pow_eval:
  assumes "bits_msb n = True # bs" "floorlog 10 n = dg" "wp = 30 + dg"
    "pow_uint wp x bs x = y" "dec_fix y = z"
  shows "dec_pow x n = z"
proof -
  have "n \<noteq> 0"
  proof
    assume "n = 0"
    then have "bits_msb n = []" by (simp add: bits_msb.simps)
    with assms(1) show False by simp
  qed
  then show ?thesis using assms by (simp add: dec_pow_def prec_def add.commute add.left_commute)
qed

lemma calculate_emi_eval:
  assumes "0 < P" "0 < rate" "1 \<le> n"
    and "dec_fix (rate / 1200) = r"
    and "dec_fix (1 + r) = opr"
    and "dec_pow opr (nat n) = pw"
    and "dec_fix (P * r) = m1"
    and "dec_fix (m1 * pw) = m2"
    and "dec_fix (pw - 1) = den" "den \<noteq> 0"
    and "dec_fix (m2 / den) = emi"
    and "quantize emi = Inr q"
  shows "calculate_emi P rate n = Inr q"
  using assms
  by (simp add: calculate_emi_def dec_div_def dec_add_def dec_mul_def dec_sub_def Let_def)

lemma calculate_emi_zero_rate_eval:
  assumes "0 < P" "1 \<le> n"
    and "dec_fix (P / of_int n) = emi"
    and "quantize emi = Inr q"
  shows "calculate_emi P 0 n = Inr q"
  using assms
  by (simp add: calculate_emi_def dec_div_def Let_def)

section \<open>Two decimal places\<close>

lemma two_places_ex: "two_places x \<longleftrightarrow> (\<exists>k. x * 100 = of_int k)"
  by (simp add: two_places_def)

lemma two_places_iff: "two_places x \<longleftrightarrow> x * 100 \<in> \<int>"
  by (auto simp: two_places_ex Ints_def)

lemma two_places_add: "two_places x \<Longrightarrow> two_places y \<Longrightarrow> two_places (x + y)"
  by (simp add: two_places_iff distrib_right)

lemma two_places_0 [simp]: "two_places 0"
  by (simp add: two_places_def)

lemma two_places_sum_list:
  "list_all (\<lambda>l. two_places (f l)) ls \<Longrightarrow> two_places (sum_list (map f ls))"
  by (induction ls) (simp_all add: two_places_add)

lemma two_places_cases:
  assumes "two_places x"
  obtains k where "x = of_int k / 100"
proof -
  from assms obtain k where "x * 100 = of_int k" by (auto simp: two_places_ex)
  then have "x = of_int k / 100" by simp
  then show ?thesis using that by blast
qed

lemma dec_fix_two_places:
  assumes "two_places x" "\<bar>x\<bar> < 10 ^ 26"
  shows "dec_fix x = x"
proof -
  from assms(1) obtain k where k: "x = of_int k / 100" by (rule two_places_cases)
  have "\<bar>of_int k :: rat\<bar> < 10 ^ 28" using assms(2) by (simp add: k)
  then have "(of_int \<bar>k\<bar> :: rat) < of_int (10 ^ 28)" by simp
  then have "\<bar>k\<bar> < 10 ^ 28" by (simp only: of_int_less_iff)
  then show ?thesis using dec_fix_decimal[of k 2] by (simp add: k)
qed

lemma dec_fix_mono: "x \<le> y \<Longrightarrow> dec_fix x \<le> dec_fix y"
  unfolding dec_fix_def prec_def by (rule round_digits_mono) simp_all

lemma dec_fix_gt_iff:
  assumes x: "two_places x" and L: "0 \<le> L" "L < 10 ^ 26"
  shows "L < dec_fix x \<longleftrightarrow> L < x"
proof -
  consider "\<bar>x\<bar> < 10 ^ 26" | "10 ^ 26 \<le> x" | "x \<le> - (10 ^ 26)" by linarith
  then show ?thesis
  proof cases
    case 1
    then show ?thesis using dec_fix_two_places[OF x] by simp
  next
    case 2
    then have "of_nat 10 powi 26 \<le> x" by simp
    then have "of_nat 10 powi 26 \<le> round_digits 10 28 x"
      by (intro round_digits_ge_powi) simp_all
    then have "10 ^ 26 \<le> dec_fix x" by (simp add: dec_fix_def prec_def)
    with 2 L show ?thesis by simp
  next
    case 3
    moreover have "(0::rat) \<le> 10 ^ 26" by simp
    ultimately have "x \<le> 0" by linarith
    then have "dec_fix x \<le> 0" unfolding dec_fix_def by (rule round_digits_nonpos)
    with \<open>x \<le> 0\<close> L show ?thesis by simp
  qed
qed

lemma emi_limit_exact:
  assumes "positive_integer (monthly_salary c)"
  shows "emi_limit c = of_int (monthly_salary c) / 2"
proof -
  have "\<bar>5 * monthly_salary c\<bar> < 10 ^ 28"
    using assms by (simp add: positive_integer_def)
  from dec_fix_decimal[OF this, of 1] show ?thesis
    by (simp add: emi_limit_def dec_mul_def)
qed

lemma quantize_two_places:
  assumes "quantize x = Inr q"
  shows "two_places q" and "\<bar>q\<bar> < 10 ^ 26"
proof -
  from assms have q: "q = of_int (round_half_up (x * 100)) / 100" and b: "\<not> 10 ^ 26 \<le> \<bar>q\<bar>"
    by (auto simp: quantize_def prec_def Let_def split: if_splits)
  show "two_places q" by (simp add: q two_places_ex)
  show "\<bar>q\<bar> < 10 ^ 26" using b by simp
qed

lemma calculate_emi_cases:
  assumes "calculate_emi P rate n = Inr q"
  obtains emi where "0 < P" "0 \<le> rate" "1 \<le> n" "quantize emi = Inr q"
  using assms
  by (auto simp: calculate_emi_def Let_def split: if_splits sum.splits)

lemma calculate_emi_two_places:
  assumes "calculate_emi P rate n = Inr q"
  shows "two_places q" and "\<bar>q\<bar> < 10 ^ 26"
  using assms quantize_two_places by (auto elim!: calculate_emi_cases)


section \<open>The paths of \<open>check\<close>\<close>

lemma check_cases:
  assumes "check d today c amount rate tn = Inr res"
  obtains
    (over_limit) new_emi where "amount > of_int (approved_limit c)"
      "calculate_emi amount rate tn = Inr new_emi"
      "res = build_response (pk c) False rate rate tn new_emi"
  | (emis_full) new_emi where "amount \<le> of_int (approved_limit c)"
      "current_emi_total d c \<ge> emi_limit c"
      "calculate_emi amount rate tn = Inr new_emi"
      "res = build_response (pk c) False rate rate tn new_emi"
  | (slab_step) new_emi final_emi approval0 corrected where "amount \<le> of_int (approved_limit c)"
      "current_emi_total d c < emi_limit c"
      "calculate_emi amount rate tn = Inr new_emi"
      "slab (calculate d c today) rate = (approval0, corrected)"
      "calculate_emi amount corrected tn = Inr final_emi"
      "res = build_response (pk c)
         (approval0 \<and> \<not> dec_add (current_emi_total d c) final_emi > emi_limit c)
         rate corrected tn final_emi"
proof (cases "amount > of_int (approved_limit c)")
  case True
  with assms over_limit show ?thesis
    by (auto simp: check_def Let_def split: sum.splits)
next
  case False
  note nl = this
  from assms nl obtain new_emi where ne: "calculate_emi amount rate tn = Inr new_emi"
    by (auto simp: check_def Let_def split: sum.splits)
  show ?thesis
  proof (cases "current_emi_total d c \<ge> emi_limit c")
    case True
    with assms nl ne emis_full show ?thesis
      by (auto simp: check_def Let_def)
  next
    case False
    obtain approval0 corrected where sl: "slab (calculate d c today) rate = (approval0, corrected)"
      by force
    from assms nl ne False sl obtain final_emi where
      fe: "calculate_emi amount corrected tn = Inr final_emi"
      by (auto simp: check_def Let_def split: sum.splits)
    from assms nl ne False sl fe
    have "res = build_response (pk c)
         (approval0 \<and> \<not> dec_add (current_emi_total d c) final_emi > emi_limit c)
         rate corrected tn final_emi"
      by (auto simp: check_def Let_def)
    with slab_step nl ne False sl fe show ?thesis by auto
  qed
qed

lemma slab_cases:
  "slab s rate =
    (if s > 50 then (True, rate)
     else if s > 30 then (True, if rate \<le> 12 then 12 else rate)
     else if s > 10 then (True, if rate \<le> 16 then 16 else rate)
     else (False, rate))"
  by (auto simp: slab_def)


section \<open>The fixtures, evaluated\<close>

lemma emi_100000_6_12: "calculate_emi (100000) (6) 12 = Inr (215166 / 25)"
proof -
  have s1: "dec_fix (6 / 1200) = 1 / 200"
    unfolding dec_fix_def prec_def by (rule trans[OF round_digits_nearI[where m = "5000000000000000000000000000" and e = "(- 30)"]]) simp_all
  have s2: "dec_fix (1 + (1 / 200)) = 201 / 200"
    unfolding dec_fix_def prec_def by (rule trans[OF round_digits_nearI[where m = "1005000000000000000000000000" and e = "(- 27)"]]) simp_all
  have s3: "dec_pow (201 / 200) (nat 12) = 1061677811864499568789707617 / 1000000000000000000000000000"
  proof (rule dec_pow_eval)
    show "bits_msb (nat 12) = True # [True, False, False]"
      by (simp add: bits_msb.simps)
    show "floorlog 10 (nat 12) = 2"
      by (simp add: compute_floorlog)
    have p1a: "round_digits 10 32 ((201 / 200) * (201 / 200)) = 40401 / 40000"
      by (rule trans[OF round_digits_nearI[where m = "10100250000000000000000000000000" and e = "(- 31)"]]) simp_all
    have p1b: "round_digits 10 32 ((40401 / 40000) * (201 / 200)) = 8120601 / 8000000"
      by (rule trans[OF round_digits_nearI[where m = "10150751250000000000000000000000" and e = "(- 31)"]]) simp_all
    have p2a: "round_digits 10 32 ((8120601 / 8000000) * (8120601 / 8000000)) = 65944160601201 / 64000000000000"
      by (rule trans[OF round_digits_nearI[where m = "10303775093937656250000000000000" and e = "(- 31)"]]) simp_all
    have p3a: "round_digits 10 32 ((65944160601201 / 64000000000000) * (65944160601201 / 64000000000000)) = 2654194529661248921974269043579 / 2500000000000000000000000000000"
      by (rule trans[OF round_digits_nearI[where m = "10616778118644995687897076174316" and e = "(- 31)"]]) simp_all
    show "(32::nat) = 30 + 2" by simp
    show "pow_uint 32 (201 / 200) [True, False, False] (201 / 200) = 2654194529661248921974269043579 / 2500000000000000000000000000000"
      by (simp only: pow_uint.simps Let_def if_True if_False p1a p1b p2a p3a)
    have pz: "dec_fix (2654194529661248921974269043579 / 2500000000000000000000000000000) = 1061677811864499568789707617 / 1000000000000000000000000000"
      unfolding dec_fix_def prec_def by (rule trans[OF round_digits_nearI[where m = "1061677811864499568789707617" and e = "(- 27)"]]) simp_all
    show "dec_fix (2654194529661248921974269043579 / 2500000000000000000000000000000) = 1061677811864499568789707617 / 1000000000000000000000000000" by (rule pz)
  qed
  have s4: "dec_fix (100000 * (1 / 200)) = 500"
    unfolding dec_fix_def prec_def by (rule trans[OF round_digits_nearI[where m = "5000000000000000000000000000" and e = "(- 25)"]]) simp_all
  have s5: "dec_fix (500 * (1061677811864499568789707617 / 1000000000000000000000000000)) = 1061677811864499568789707617 / 2000000000000000000000000"
    unfolding dec_fix_def prec_def by (rule trans[OF round_digits_nearI[where m = "5308389059322497843948538085" and e = "(- 25)"]]) simp_all
  have s6: "dec_fix ((1061677811864499568789707617 / 1000000000000000000000000000) - 1) = 61677811864499568789707617 / 1000000000000000000000000000"
    unfolding dec_fix_def prec_def by (rule trans[OF round_digits_nearI[where m = "6167781186449956878970761700" and e = "(- 29)"]]) simp_all
  have s6n: "((61677811864499568789707617 / 1000000000000000000000000000 :: rat)) \<noteq> 0" by simp
  have s7: "dec_fix ((1061677811864499568789707617 / 2000000000000000000000000) / (61677811864499568789707617 / 1000000000000000000000000000)) = 4303321485354033134304672019 / 500000000000000000000000"
    unfolding dec_fix_def prec_def by (rule trans[OF round_digits_nearI[where m = "8606642970708066268609344038" and e = "(- 24)"]]) simp_all
  have s8: "quantize (4303321485354033134304672019 / 500000000000000000000000) = Inr (215166 / 25)"
    using quantize_eval[of "4303321485354033134304672019 / 500000000000000000000000" "860664"] by (simp add: round_half_up_def)
  show ?thesis
    by (rule calculate_emi_eval[OF _ _ _ s1 s2 s3 s4 s5 s6 s6n s7 s8]) simp_all
qed

lemma emi_100000_12_12: "calculate_emi (100000) (12) 12 = Inr (222122 / 25)"
proof -
  have s1: "dec_fix (12 / 1200) = 1 / 100"
    unfolding dec_fix_def prec_def by (rule trans[OF round_digits_nearI[where m = "1000000000000000000000000000" and e = "(- 29)"]]) simp_all
  have s2: "dec_fix (1 + (1 / 100)) = 101 / 100"
    unfolding dec_fix_def prec_def by (rule trans[OF round_digits_nearI[where m = "1010000000000000000000000000" and e = "(- 27)"]]) simp_all
  have s3: "dec_pow (101 / 100) (nat 12) = 1126825030131969720661201 / 1000000000000000000000000"
  proof (rule dec_pow_eval)
    show "bits_msb (nat 12) = True # [True, False, False]"
      by (simp add: bits_msb.simps)
    show "floorlog 10 (nat 12) = 2"
      by (simp add: compute_floorlog)
    have p1a: "round_digits 10 32 ((101 / 100) * (101 / 100)) = 10201 / 10000"
      by (rule trans[OF round_digits_nearI[where m = "10201000000000000000000000000000" and e = "(- 31)"]]) simp_all
    have p1b: "round_digits 10 32 ((10201 / 10000) * (101 / 100)) = 1030301 / 1000000"
      by (rule trans[OF round_digits_nearI[where m = "10303010000000000000000000000000" and e = "(- 31)"]]) simp_all
    have p2a: "round_digits 10 32 ((1030301 / 1000000) * (1030301 / 1000000)) = 1061520150601 / 1000000000000"
      by (rule trans[OF round_digits_nearI[where m = "10615201506010000000000000000000" and e = "(- 31)"]]) simp_all
    have p3a: "round_digits 10 32 ((1061520150601 / 1000000000000) * (1061520150601 / 1000000000000)) = 1126825030131969720661201 / 1000000000000000000000000"
      by (rule trans[OF round_digits_nearI[where m = "11268250301319697206612010000000" and e = "(- 31)"]]) simp_all
    show "(32::nat) = 30 + 2" by simp
    show "pow_uint 32 (101 / 100) [True, False, False] (101 / 100) = 1126825030131969720661201 / 1000000000000000000000000"
      by (simp only: pow_uint.simps Let_def if_True if_False p1a p1b p2a p3a)
    have pz: "dec_fix (1126825030131969720661201 / 1000000000000000000000000) = 1126825030131969720661201 / 1000000000000000000000000"
      unfolding dec_fix_def prec_def by (rule trans[OF round_digits_nearI[where m = "1126825030131969720661201000" and e = "(- 27)"]]) simp_all
    show "dec_fix (1126825030131969720661201 / 1000000000000000000000000) = 1126825030131969720661201 / 1000000000000000000000000" by (rule pz)
  qed
  have s4: "dec_fix (100000 * (1 / 100)) = 1000"
    unfolding dec_fix_def prec_def by (rule trans[OF round_digits_nearI[where m = "1000000000000000000000000000" and e = "(- 24)"]]) simp_all
  have s5: "dec_fix (1000 * (1126825030131969720661201 / 1000000000000000000000000)) = 1126825030131969720661201 / 1000000000000000000000"
    unfolding dec_fix_def prec_def by (rule trans[OF round_digits_nearI[where m = "1126825030131969720661201000" and e = "(- 24)"]]) simp_all
  have s6: "dec_fix ((1126825030131969720661201 / 1000000000000000000000000) - 1) = 126825030131969720661201 / 1000000000000000000000000"
    unfolding dec_fix_def prec_def by (rule trans[OF round_digits_nearI[where m = "1268250301319697206612010000" and e = "(- 28)"]]) simp_all
  have s6n: "((126825030131969720661201 / 1000000000000000000000000 :: rat)) \<noteq> 0" by simp
  have s7: "dec_fix ((1126825030131969720661201 / 1000000000000000000000) / (126825030131969720661201 / 1000000000000000000000000)) = 8884878867834170733998783123 / 1000000000000000000000000"
    unfolding dec_fix_def prec_def by (rule trans[OF round_digits_nearI[where m = "8884878867834170733998783123" and e = "(- 24)"]]) simp_all
  have s8: "quantize (8884878867834170733998783123 / 1000000000000000000000000) = Inr (222122 / 25)"
    using quantize_eval[of "8884878867834170733998783123 / 1000000000000000000000000" "888488"] by (simp add: round_half_up_def)
  show ?thesis
    by (rule calculate_emi_eval[OF _ _ _ s1 s2 s3 s4 s5 s6 s6n s7 s8]) simp_all
qed


lemma customer_a_fields [simp]:
  "pk customer_a = 1" "monthly_salary customer_a = 100000"
  "approved_limit customer_a = 3600000" "current_debt customer_a = 0"
  by (simp_all add: customer_a_def)

lemma calculate_a: "calculate db_a customer_a today_a = 50"
  by (simp add: calculate_def loans_of_def db_a_def)

lemma emi_limit_a: "emi_limit customer_a = 50000"
  using dec_fix_decimal[of 50000 0] by (simp add: emi_limit_def dec_mul_def)

lemma current_emi_total_a: "current_emi_total db_a customer_a = 0"
  by (simp add: current_emi_total_def db_a_def)

lemma check_a:
  "check db_a today_a customer_a 100000 6 12 =
     Inr \<lparr>r_customer_id = 1, approval = True, r_interest_rate = 6,
          corrected_interest_rate = 12, r_tenure = 12, r_monthly_installment = 222122 / 25\<rparr>"
proof -
  have add: "dec_add 0 (222122 / 25) = 222122 / 25"
    using dec_fix_decimal[of 888488 2] by (simp add: dec_add_def)
  show ?thesis
    by (simp add: check_def calculate_a emi_limit_a current_emi_total_a emi_100000_6_12
        emi_100000_12_12 slab_def build_response_def add)
qed

lemma emi_10000000_12_1: "calculate_emi (10000000) (12) 1 = Inr (10100000)"
proof -
  have s1: "dec_fix (12 / 1200) = 1 / 100"
    unfolding dec_fix_def prec_def by (rule trans[OF round_digits_nearI[where m = "1000000000000000000000000000" and e = "(- 29)"]]) simp_all
  have s2: "dec_fix (1 + (1 / 100)) = 101 / 100"
    unfolding dec_fix_def prec_def by (rule trans[OF round_digits_nearI[where m = "1010000000000000000000000000" and e = "(- 27)"]]) simp_all
  have s3: "dec_pow (101 / 100) (nat 1) = 101 / 100"
  proof (rule dec_pow_eval)
    show "bits_msb (nat 1) = True # []"
      by (simp add: bits_msb.simps)
    show "floorlog 10 (nat 1) = 1"
      by (simp add: compute_floorlog)
    show "(31::nat) = 30 + 1" by simp
    show "pow_uint 31 (101 / 100) [] (101 / 100) = 101 / 100"
      by (simp only: pow_uint.simps Let_def if_True if_False )
    have pz: "dec_fix (101 / 100) = 101 / 100"
      unfolding dec_fix_def prec_def by (rule trans[OF round_digits_nearI[where m = "1010000000000000000000000000" and e = "(- 27)"]]) simp_all
    show "dec_fix (101 / 100) = 101 / 100" by (rule pz)
  qed
  have s4: "dec_fix (10000000 * (1 / 100)) = 100000"
    unfolding dec_fix_def prec_def by (rule trans[OF round_digits_nearI[where m = "1000000000000000000000000000" and e = "(- 22)"]]) simp_all
  have s5: "dec_fix (100000 * (101 / 100)) = 101000"
    unfolding dec_fix_def prec_def by (rule trans[OF round_digits_nearI[where m = "1010000000000000000000000000" and e = "(- 22)"]]) simp_all
  have s6: "dec_fix ((101 / 100) - 1) = 1 / 100"
    unfolding dec_fix_def prec_def by (rule trans[OF round_digits_nearI[where m = "1000000000000000000000000000" and e = "(- 29)"]]) simp_all
  have s6n: "((1 / 100 :: rat)) \<noteq> 0" by simp
  have s7: "dec_fix (101000 / (1 / 100)) = 10100000"
    unfolding dec_fix_def prec_def by (rule trans[OF round_digits_nearI[where m = "1010000000000000000000000000" and e = "(- 20)"]]) simp_all
  have s8: "quantize (10100000) = Inr (10100000)"
    using quantize_eval[of "10100000" "1010000000"] by (simp add: round_half_up_def)
  show ?thesis
    by (rule calculate_emi_eval[OF _ _ _ s1 s2 s3 s4 s5 s6 s6n s7 s8]) simp_all
qed

lemma emi_100000_12_1: "calculate_emi (100000) (12) 1 = Inr (101000)"
proof -
  have s1: "dec_fix (12 / 1200) = 1 / 100"
    unfolding dec_fix_def prec_def by (rule trans[OF round_digits_nearI[where m = "1000000000000000000000000000" and e = "(- 29)"]]) simp_all
  have s2: "dec_fix (1 + (1 / 100)) = 101 / 100"
    unfolding dec_fix_def prec_def by (rule trans[OF round_digits_nearI[where m = "1010000000000000000000000000" and e = "(- 27)"]]) simp_all
  have s3: "dec_pow (101 / 100) (nat 1) = 101 / 100"
  proof (rule dec_pow_eval)
    show "bits_msb (nat 1) = True # []"
      by (simp add: bits_msb.simps)
    show "floorlog 10 (nat 1) = 1"
      by (simp add: compute_floorlog)
    show "(31::nat) = 30 + 1" by simp
    show "pow_uint 31 (101 / 100) [] (101 / 100) = 101 / 100"
      by (simp only: pow_uint.simps Let_def if_True if_False )
    have pz: "dec_fix (101 / 100) = 101 / 100"
      unfolding dec_fix_def prec_def by (rule trans[OF round_digits_nearI[where m = "1010000000000000000000000000" and e = "(- 27)"]]) simp_all
    show "dec_fix (101 / 100) = 101 / 100" by (rule pz)
  qed
  have s4: "dec_fix (100000 * (1 / 100)) = 1000"
    unfolding dec_fix_def prec_def by (rule trans[OF round_digits_nearI[where m = "1000000000000000000000000000" and e = "(- 24)"]]) simp_all
  have s5: "dec_fix (1000 * (101 / 100)) = 1010"
    unfolding dec_fix_def prec_def by (rule trans[OF round_digits_nearI[where m = "1010000000000000000000000000" and e = "(- 24)"]]) simp_all
  have s6: "dec_fix ((101 / 100) - 1) = 1 / 100"
    unfolding dec_fix_def prec_def by (rule trans[OF round_digits_nearI[where m = "1000000000000000000000000000" and e = "(- 29)"]]) simp_all
  have s6n: "((1 / 100 :: rat)) \<noteq> 0" by simp
  have s7: "dec_fix (1010 / (1 / 100)) = 101000"
    unfolding dec_fix_def prec_def by (rule trans[OF round_digits_nearI[where m = "1010000000000000000000000000" and e = "(- 22)"]]) simp_all
  have s8: "quantize (101000) = Inr (101000)"
    using quantize_eval[of "101000" "10100000"] by (simp add: round_half_up_def)
  show ?thesis
    by (rule calculate_emi_eval[OF _ _ _ s1 s2 s3 s4 s5 s6 s6n s7 s8]) simp_all
qed


lemma check_a_over_limit:
  "check db_a today_a customer_a 10000000 12 1 =
     Inr \<lparr>r_customer_id = 1, approval = False, r_interest_rate = 12,
          corrected_interest_rate = 12, r_tenure = 1, r_monthly_installment = 10100000\<rparr>"
  by (simp add: check_def emi_10000000_12_1 build_response_def)

lemma check_a_flipped:
  "check db_a today_a customer_a 100000 12 1 =
     Inr \<lparr>r_customer_id = 1, approval = False, r_interest_rate = 12,
          corrected_interest_rate = 12, r_tenure = 1, r_monthly_installment = 101000\<rparr>"
proof -
  have add: "dec_add 0 101000 = 101000"
    using dec_fix_decimal[of 101000 0] by (simp add: dec_add_def)
  show ?thesis
    by (simp add: check_def calculate_a emi_limit_a current_emi_total_a emi_100000_12_1
        slab_def build_response_def add)
qed

lemma current_emi_total_busy: "current_emi_total db_busy customer_a = 55000"
  by (simp add: current_emi_total_def db_busy_def loan_busy_def)

lemma check_busy:
  "check db_busy today_a customer_a 100000 12 12 =
     Inr \<lparr>r_customer_id = 1, approval = False, r_interest_rate = 12,
          corrected_interest_rate = 12, r_tenure = 12, r_monthly_installment = 222122 / 25\<rparr>"
  by (simp add: check_def emi_limit_a current_emi_total_busy emi_100000_12_12 build_response_def)


section \<open>The claims\<close>

text \<open>
  Claim C1. Whenever \<open>check\<close> returns with the requested amount within the approved limit
  and the active installments below the affordability ceiling, it has gone through the
  slab step with the credit score \<open>s\<close>: for \<open>s > 50\<close> the slab approves at the requested
  rate; for \<open>30 < s \<le> 50\<close> it approves and the rate becomes 12 exactly when the requested
  rate is at most 12; for \<open>10 < s \<le> 30\<close> the same with 16; for \<open>s \<le> 10\<close> it rejects and
  the rate is unchanged. The result carries the slab's rate and the installment at that
  rate, and is approved exactly when the slab approved and the new installment does not
  breach the ceiling.
\<close>

theorem slab_policy:
  assumes ret: "check d today c amount rate tn = Inr res"
    and amt: "amount \<le> of_int (approved_limit c)"
    and cur: "current_emi_total d c < emi_limit c"
  shows "(50 < calculate d c today \<longrightarrow>
            slab (calculate d c today) rate = (True, rate)) \<and>
         (30 < calculate d c today \<and> calculate d c today \<le> 50 \<longrightarrow>
            slab (calculate d c today) rate = (True, if rate \<le> 12 then 12 else rate)) \<and>
         (10 < calculate d c today \<and> calculate d c today \<le> 30 \<longrightarrow>
            slab (calculate d c today) rate = (True, if rate \<le> 16 then 16 else rate)) \<and>
         (calculate d c today \<le> 10 \<longrightarrow>
            slab (calculate d c today) rate = (False, rate) \<and> \<not> approval res) \<and>
         corrected_interest_rate res = snd (slab (calculate d c today) rate) \<and>
         calculate_emi amount (corrected_interest_rate res) tn = Inr (r_monthly_installment res) \<and>
         (approval res \<longleftrightarrow>
            fst (slab (calculate d c today) rate) \<and>
            \<not> emi_limit c < dec_add (current_emi_total d c) (r_monthly_installment res))"
  using ret
proof (cases rule: check_cases)
  case (over_limit new_emi)
  with amt show ?thesis by simp
next
  case (emis_full new_emi)
  with cur show ?thesis by simp
next
  case (slab_step new_emi final_emi approval0 corrected)
  then show ?thesis
    by (auto simp: build_response_def slab_cases split: if_splits)
qed


theorem slab_policy_witness:
  "\<exists>res. check db_a today_a customer_a 100000 6 12 = Inr res \<and>
         (100000::rat) \<le> of_int (approved_limit customer_a) \<and>
         current_emi_total db_a customer_a < emi_limit customer_a \<and>
         calculate db_a customer_a today_a = 50 \<and>
         slab (calculate db_a customer_a today_a) 6 = (True, 12) \<and>
         corrected_interest_rate res = 12 \<and>
         calculate_emi 100000 12 12 = Inr (r_monthly_installment res) \<and>
         approval res"
proof -
  have amt: "(100000::rat) \<le> of_int (approved_limit customer_a)" by simp
  have cur: "current_emi_total db_a customer_a < emi_limit customer_a"
    by (simp add: current_emi_total_a emi_limit_a)
  have add: "dec_add 0 (222122 / 25) = 222122 / 25"
    using dec_fix_decimal[of 888488 2] by (simp add: dec_add_def)
  from slab_policy[OF check_a amt cur] amt cur show ?thesis
    by (simp add: check_a calculate_a emi_limit_a current_emi_total_a add)
qed


text \<open>
  Claim C10. Whenever \<open>check\<close> returns, the corrected rate is at least the requested
  rate: it is the requested rate, 12 or 16, and it is the requested rate on every path
  but the two correcting slabs (score above 50, score at most 10, amount over the
  limit, active installments at the ceiling).
\<close>

theorem corrected_rate_ge_requested:
  assumes "check d today c amount rate tn = Inr res"
  shows "rate \<le> corrected_interest_rate res \<and>
         r_interest_rate res = rate \<and>
         (corrected_interest_rate res = rate \<or> corrected_interest_rate res = 12 \<or>
          corrected_interest_rate res = 16) \<and>
         (50 < calculate d c today \<or> calculate d c today \<le> 10 \<or>
          of_int (approved_limit c) < amount \<or> emi_limit c \<le> current_emi_total d c
            \<longrightarrow> corrected_interest_rate res = rate)"
  using assms
proof (cases rule: check_cases)
  case (over_limit new_emi)
  then show ?thesis by (simp add: build_response_def)
next
  case (emis_full new_emi)
  then show ?thesis by (simp add: build_response_def)
next
  case (slab_step new_emi final_emi approval0 corrected)
  then show ?thesis
    by (auto simp: build_response_def slab_cases split: if_splits)
qed



theorem corrected_rate_ge_requested_witness:
  "(\<exists>res. check db_a today_a customer_a 100000 6 12 = Inr res \<and>
          (6::rat) \<le> corrected_interest_rate res \<and> corrected_interest_rate res = 12) \<and>
   (\<exists>res. check db_a today_a customer_a 10000000 12 1 = Inr res \<and>
          of_int (approved_limit customer_a) < (10000000::rat) \<and>
          corrected_interest_rate res = 12)"
  using corrected_rate_ge_requested[OF check_a] corrected_rate_ge_requested[OF check_a_over_limit]
  by (simp add: check_a check_a_over_limit)

lemma calculate_in_range: "0 \<le> calculate d c today \<and> calculate d c today \<le> 100"
  unfolding calculate_def Let_def by (simp add: max_def min_def)

lemma customer_b_fields [simp]:
  "pk customer_b = 1" "monthly_salary customer_b = 50000"
  "approved_limit customer_b = 1800000" "current_debt customer_b = 0"
  by (simp_all add: customer_b_def)

lemma calculate_tie: "calculate db_tie customer_b today_a = 92"
proof -
  have f0: "float_of (3 / 4) = 3 / 4"
    unfolding float_of_def by (rule trans[OF round_digits_nearI[where m = "6755399441055744" and e = "(- 53)"]]) simp_all
  have f1: "float_of (45 / 2) = 45 / 2"
    unfolding float_of_def by (rule trans[OF round_digits_nearI[where m = "6333186975989760" and e = "(- 48)"]]) simp_all
  have f2: "float_of (20) = 20"
    unfolding float_of_def by (rule trans[OF round_digits_nearI[where m = "5629499534213120" and e = "(- 48)"]]) simp_all
  have f3: "float_of (100000) = 100000"
    unfolding float_of_def by (rule trans[OF round_digits_nearI[where m = "6871947673600000" and e = "(- 36)"]]) simp_all
  have f4: "float_of (1800000) = 1800000"
    unfolding float_of_def by (rule trans[OF round_digits_nearI[where m = "7730941132800000" and e = "(- 32)"]]) simp_all
  have f5: "float_of (1 / 18) = 2001599834386887 / 36028797018963968"
    unfolding float_of_def by (rule trans[OF round_digits_nearI[where m = "8006399337547548" and e = "(- 57)"]]) simp_all
  have f6: "float_of (30) = 30"
    unfolding float_of_def by (rule trans[OF round_digits_nearI[where m = "8444249301319680" and e = "(- 48)"]]) simp_all
  have f7: "float_of (85 / 2) = 85 / 2"
    unfolding float_of_def by (rule trans[OF round_digits_nearI[where m = "5981343255101440" and e = "(- 47)"]]) simp_all
  have f8: "float_of (125 / 2) = 125 / 2"
    unfolding float_of_def by (rule trans[OF round_digits_nearI[where m = "8796093022208000" and e = "(- 47)"]]) simp_all
  have f9: "float_of (185 / 2) = 185 / 2"
    unfolding float_of_def by (rule trans[OF round_digits_nearI[where m = "6509108836433920" and e = "(- 46)"]]) simp_all
  have r: "round_half_even (185 / 2) = 92"
    by (rule rhe_tie_even) simp_all
  have ls: "loans_of db_tie customer_b = [loan_closed]"
    by (simp add: loans_of_def db_tie_def loan_closed_def)
  show ?thesis
    by (simp add: calculate_def ls Let_def fmul_def fadd_def fdiv_def py_round_def
        loan_closed_def today_a_def r f0 f1 f2 f3 f4 f5 f6 f7 f8 f9)
qed



text \<open>
  Claim C7. For a customer with loans whose active principal is within the limit, the
  score is the sum of the four weighted sub-scores, rounded and clamped to 0..100. The
  clamp holds for every input (\<open>calculate_in_range\<close>). The rounding is Python's
  \<open>round()\<close>, which sends a tie to the even neighbour, not upwards: the customer of
  \<open>db_tie\<close> has one closed loan with 3 of 4 installments paid on time, so the sub-scores
  are 22.5, 20, 20 and 30, their sum is exactly 92.5, and the score is 92 where rounding
  half up gives 93.
\<close>

theorem score_tie_rounds_to_even:
  "calculate db_tie customer_b today_a = 92 \<and> round_half_up (185 / 2) = 93"
  using calculate_tie by (simp add: round_half_up_def)

subsection \<open>Installments: evaluation and sign\<close>








lemma dec_fix_nonneg: "0 \<le> x \<Longrightarrow> 0 \<le> dec_fix x"
  by (simp add: dec_fix_def round_digits_nonneg)











subsection \<open>Rate 0: the 28-digit quotient does not change the rounding to two places\<close>

lemma calculate_emi_zero_rate_exact:
  assumes P: "0 < P" "decimal_15_2 P" and n: "1 \<le> n" "n \<le> 5000000000000"
  shows "calculate_emi P 0 n = Inr (emi_spec P 0 n)"
proof -
  from P have tp: "two_places P" and Pb: "P < 10 ^ 13"
    by (auto simp: decimal_15_2_def)
  from tp obtain m where m: "P = of_int m / 100" by (rule two_places_cases)
  have m0: "0 < m" using P(1) by (simp add: m)
  have "(of_int m :: rat) < of_int (10 ^ 15)" using Pb by (simp add: m)
  then have mb: "m < 10 ^ 15" by (simp only: of_int_less_iff)
  define N :: rat where "N = of_int n"
  define M :: rat where "M = of_int m"
  have N1: "1 \<le> N" using n(1) by (simp add: N_def)
  have "(of_int n :: rat) \<le> of_int 5000000000000" using n(2) by (simp only: of_int_le_iff)
  then have Nb: "N \<le> 5000000000000" by (simp add: N_def)
  have M0: "0 < M" using m0 by (simp add: M_def)
  define q where "q = P / N"
  have q0: "0 < q" using P(1) N1 by (simp add: q_def)
  define K where "K = \<lfloor>q * 100 + 1 / 2\<rfloor>"
  define k :: rat where "k = of_int K"
  have K0: "0 \<le> K" using q0 by (simp add: K_def)
  have Kle: "k \<le> q * 100 + 1 / 2" by (simp add: K_def k_def)
  have Klt: "q * 100 + 1 / 2 < k + 1" unfolding K_def k_def by linarith
  have qm: "q * 100 = M / N" by (simp add: q_def m M_def)
  have "M / N \<le> M" using N1 M0 by (simp add: divide_le_eq mult_le_cancel_left1)
  moreover have "k \<le> M / N + 1 / 2" using Kle by (simp only: qm)
  ultimately have "k < M + 1" by linarith
  then have "(of_int K :: rat) < of_int (m + 1)" by (simp add: k_def M_def)
  then have "K < m + 1" by (simp only: of_int_less_iff)
  then have Kb: "K < 10 ^ 15" using mb by linarith
  text \<open>The integer form of the upper bound.\<close>
  have "q * 100 < k + 1 / 2" using Klt by linarith
  then have "M / N < k + 1 / 2" by (simp only: qm)
  then have "M < (k + 1 / 2) * N" using N1 by (simp add: pos_divide_less_eq)
  then have "2 * M < (2 * k + 1) * N" by (simp add: algebra_simps)
  then have "(of_int (2 * m) :: rat) < of_int ((2 * K + 1) * n)" by (simp add: N_def M_def k_def)
  then have "2 * m < (2 * K + 1) * n" by (simp only: of_int_less_iff)
  then have "2 * m + 1 \<le> (2 * K + 1) * n" by linarith
  then have "(of_int (2 * m + 1) :: rat) \<le> of_int ((2 * K + 1) * n)" by (simp only: of_int_le_iff)
  then have up_int: "2 * M + 1 \<le> (2 * k + 1) * N" by (simp add: N_def M_def k_def)
  define y where "y = dec_fix q"
  text \<open>Both thresholds are 28-digit decimals.\<close>
  define lo :: rat where "lo = of_int ((2 * K - 1) * 5) / 10 ^ 3"
  define u :: rat where "u = of_int ((2 * K + 1) * 5000000000000 - 1) / 10 ^ 15"
  have lo_fix: "dec_fix lo = lo"
    unfolding lo_def using K0 Kb by (intro dec_fix_decimal) (simp add: abs_if)
  have u_fix: "dec_fix u = u"
    unfolding u_def using K0 Kb by (intro dec_fix_decimal) (simp add: abs_if)
  have lo_eq: "lo = (k - 1 / 2) / 100" by (simp add: lo_def k_def field_simps)
  have u_eq: "u = (k + 1 / 2) / 100 - 1 / 1000000000000000" by (simp add: u_def k_def field_simps)
  have "lo \<le> q" using Kle unfolding lo_eq by (simp add: field_simps)
  then have "lo \<le> y" using dec_fix_mono[of lo q] lo_fix by (simp add: y_def)
  then have y_lo: "k \<le> y * 100 + 1 / 2" unfolding lo_eq by (simp add: field_simps)
  have "q \<le> u"
  proof -
    have "M \<le> ((2 * k + 1) * N - 1) / 2" using up_int by (simp add: field_simps)
    then have "M / N \<le> ((2 * k + 1) * N - 1) / 2 / N"
      using N1 by (intro divide_right_mono) simp_all
    also have "\<dots> = (k + 1 / 2) - 1 / (2 * N)"
      using N1 by (simp add: field_simps)
    also have "\<dots> \<le> (k + 1 / 2) - 1 / 10000000000000"
    proof -
      have "2 * N \<le> 10000000000000" using Nb by simp
      moreover have "0 < 2 * N" using N1 by simp
      ultimately have "1 / 10000000000000 \<le> 1 / (2 * N)" by (intro divide_left_mono) simp_all
      then show ?thesis by simp
    qed
    finally have "q * 100 \<le> (k + 1 / 2) - 1 / 10000000000000" by (simp only: qm)
    then show ?thesis unfolding u_eq by (simp add: field_simps)
  qed
  then have "y \<le> u" using dec_fix_mono[of q u] u_fix by (simp add: y_def)
  then have y_up: "y * 100 + 1 / 2 < k + 1" unfolding u_eq by (simp add: field_simps)
  have y0: "0 \<le> y" using q0 by (simp add: y_def dec_fix_nonneg)
  have "\<lfloor>y * 100 + 1 / 2\<rfloor> = K" using y_lo y_up unfolding k_def by (intro floor_unique) simp_all
  then have ry: "round_half_up (y * 100) = K" using y0 by (simp add: round_half_up_def)
  have "\<bar>K\<bar> < 10 ^ 28" using K0 Kb by simp
  from quantize_eval[OF ry this] have qy: "quantize y = Inr (of_int K / 100)" .
  have "0 \<le> q * 100" using q0 by simp
  then have "round_half_up (q * 100) = K" by (simp add: round_half_up_def K_def)
  then have spec: "emi_spec P 0 n = of_int K / 100"
    by (simp add: emi_spec_def half_up_2_def q_def N_def)
  have "calculate_emi P 0 n = Inr (of_int K / 100)"
    using P(1) n(1) qy by (intro calculate_emi_zero_rate_eval[where emi = y]) (simp_all add: y_def q_def N_def)
  then show ?thesis by (simp add: spec)
qed

text \<open>
  Claim C2. The sum is taken over the loans of the customer that are active, and the
  ceiling is half the salary, both in exact arithmetic; installments are stored to two
  decimal places and the salary is in the range of its column. When the installment at
  the requested rate is computed and the active installments are at least half the
  salary, \<open>check\<close> returns a rejection with the installment at the requested rate. When
  the amount is within the limit, the active installments are below half the salary, the
  slab step approves, and the active installments plus the installment computed at the
  corrected rate exceed half the salary, \<open>check\<close> returns a rejection with the corrected
  rate and the installment computed at it.
\<close>

theorem affordability_rejections:
  assumes cols: "list_all (\<lambda>l. two_places (monthly_installment l)) (loans d)"
    and sal: "positive_integer (monthly_salary c)"
    and req: "calculate_emi amount rate tn = Inr e"
  shows "(of_int (monthly_salary c) / 2 \<le>
            sum_list (map monthly_installment
              (filter (\<lambda>l. customer_id l = pk c \<and> is_active l) (loans d))) \<longrightarrow>
          (\<exists>res. check d today c amount rate tn = Inr res \<and> \<not> approval res \<and>
                 corrected_interest_rate res = rate \<and> r_monthly_installment res = e)) \<and>
         (\<forall>e'. amount \<le> of_int (approved_limit c) \<and>
            sum_list (map monthly_installment
              (filter (\<lambda>l. customer_id l = pk c \<and> is_active l) (loans d)))
              < of_int (monthly_salary c) / 2 \<and>
            fst (slab (calculate d c today) rate) \<and>
            calculate_emi amount (snd (slab (calculate d c today) rate)) tn = Inr e' \<and>
            of_int (monthly_salary c) / 2 <
              sum_list (map monthly_installment
                (filter (\<lambda>l. customer_id l = pk c \<and> is_active l) (loans d))) + e' \<longrightarrow>
          (\<exists>res. check d today c amount rate tn = Inr res \<and> \<not> approval res \<and>
                 corrected_interest_rate res = snd (slab (calculate d c today) rate) \<and>
                 r_monthly_installment res = e'))"
proof -
  define act where "act = sum_list (map monthly_installment
              (filter (\<lambda>l. customer_id l = pk c \<and> is_active l) (loans d)))"
  have cur: "current_emi_total d c = act" by (simp add: current_emi_total_def act_def)
  have lim: "emi_limit c = of_int (monthly_salary c) / 2" using sal by (rule emi_limit_exact)
  have L: "0 \<le> emi_limit c" "emi_limit c < 10 ^ 26"
    using sal by (simp_all add: lim positive_integer_def)
  have tc: "two_places act"
  proof -
    have "list_all (\<lambda>l. two_places (monthly_installment l))
            (filter (\<lambda>l. customer_id l = pk c \<and> is_active l) (loans d))"
      using cols by (simp add: list_all_iff)
    then show ?thesis unfolding act_def by (rule two_places_sum_list)
  qed
  have first: "\<exists>res. check d today c amount rate tn = Inr res \<and> \<not> approval res \<and>
                 corrected_interest_rate res = rate \<and> r_monthly_installment res = e"
    if "of_int (monthly_salary c) / 2 \<le> act"
    using that req by (simp add: check_def Let_def cur lim build_response_def)
  have second: "\<exists>res. check d today c amount rate tn = Inr res \<and> \<not> approval res \<and>
                 corrected_interest_rate res = snd (slab (calculate d c today) rate) \<and>
                 r_monthly_installment res = e'"
    if h: "amount \<le> of_int (approved_limit c)" "act < of_int (monthly_salary c) / 2"
      "fst (slab (calculate d c today) rate)"
      "calculate_emi amount (snd (slab (calculate d c today) rate)) tn = Inr e'"
      "of_int (monthly_salary c) / 2 < act + e'" for e'
  proof -
    have "two_places e'" using h(4) by (rule calculate_emi_two_places)
    with tc have "two_places (act + e')" by (rule two_places_add)
    then have "emi_limit c < dec_add act e' \<longleftrightarrow> emi_limit c < act + e'"
      unfolding dec_add_def using L by (rule dec_fix_gt_iff)
    then have gt: "emi_limit c < dec_add act e'" using h(5) by (simp add: lim)
    obtain a0 cr where sl: "slab (calculate d c today) rate = (a0, cr)" by force
    show ?thesis
      using h req gt sl
      by (simp add: check_def Let_def cur lim build_response_def)
  qed
  show ?thesis
    unfolding act_def[symmetric] using first second by blast
qed

lemma current_emi_total_mixed: "current_emi_total db_mixed customer_a = 55000"
  by (simp add: current_emi_total_def db_mixed_def loan_busy_def loan_closed_def)

lemma current_emi_total_tie: "current_emi_total db_tie customer_b = 0"
  by (simp add: current_emi_total_def db_tie_def loan_closed_def)

theorem affordability_rejections_witness:
  "(of_int (monthly_salary customer_a) / 2 \<le>
      sum_list (map monthly_installment
        (filter (\<lambda>l. customer_id l = pk customer_a \<and> is_active l) (loans db_mixed))) \<and>
    (\<exists>res. check db_mixed today_a customer_a 100000 12 12 = Inr res \<and> \<not> approval res \<and>
        corrected_interest_rate res = 12 \<and> r_monthly_installment res = 222122 / 25)) \<and>
   (sum_list (map monthly_installment
        (filter (\<lambda>l. customer_id l = pk customer_b \<and> is_active l) (loans db_tie))) = 0 \<and>
    slab (calculate db_tie customer_b today_a) 12 = (True, 12) \<and>
    calculate_emi 100000 12 1 = Inr 101000 \<and>
    of_int (monthly_salary customer_b) / 2 < (101000 :: rat) \<and>
    (\<exists>res. check db_tie today_a customer_b 100000 12 1 = Inr res \<and> \<not> approval res \<and>
        corrected_interest_rate res = 12 \<and> r_monthly_installment res = 101000))"
proof -
  have sal_a: "positive_integer (monthly_salary customer_a)"
    by (simp add: positive_integer_def)
  have sal_b: "positive_integer (monthly_salary customer_b)"
    by (simp add: positive_integer_def)
  have c1: "list_all (\<lambda>l. two_places (monthly_installment l)) (loans db_mixed)"
    by (simp add: db_mixed_def loan_busy_def loan_closed_def two_places_def)
  have c2: "list_all (\<lambda>l. two_places (monthly_installment l)) (loans db_tie)"
    by (simp add: db_tie_def loan_closed_def two_places_def)
  have s1: "sum_list (map monthly_installment
        (filter (\<lambda>l. customer_id l = pk customer_a \<and> is_active l) (loans db_mixed))) = 55000"
    using current_emi_total_mixed by (simp add: current_emi_total_def)
  have s2: "sum_list (map monthly_installment
        (filter (\<lambda>l. customer_id l = pk customer_b \<and> is_active l) (loans db_tie))) = 0"
    using current_emi_total_tie by (simp add: current_emi_total_def)
  have sl: "slab (calculate db_tie customer_b today_a) 12 = (True, 12)"
    by (simp add: calculate_tie slab_def)
  from affordability_rejections[OF c1 sal_a emi_100000_12_12, of today_a, unfolded s1]
    affordability_rejections[OF c2 sal_b emi_100000_12_1, of today_a, unfolded s2 sl]
  show ?thesis
    unfolding s1 s2 sl by (simp add: emi_100000_12_1)
qed

subsection \<open>The paths of \<open>create_loan\<close>\<close>

lemma create_loan_body_cases:
  obtains
    (locked) "fails SelectForUpdate"
      "create_loan_body fails today cid amount rate tn d = (d, Inl StorageError)"
  | (missing) "\<not> fails SelectForUpdate" "find (\<lambda>c. pk c = cid) (customers d) = None"
      "create_loan_body fails today cid amount rate tn d = (d, Inl CustomerNotFoundError)"
  | (raised) c e where "\<not> fails SelectForUpdate"
      "find (\<lambda>c. pk c = cid) (customers d) = Some c"
      "check d today c amount rate tn = Inl e"
      "create_loan_body fails today cid amount rate tn d = (d, Inl e)"
  | (rejected) c el where "\<not> fails SelectForUpdate"
      "find (\<lambda>c. pk c = cid) (customers d) = Some c"
      "check d today c amount rate tn = Inr el" "\<not> approval el"
      "create_loan_body fails today cid amount rate tn d =
         (d, Inr \<lparr>loan_id = None, o_customer_id = cid, loan_approved = False,
                  message = get_rejection_message d today c, o_monthly_installment = None\<rparr>)"
  | (no_date) c el e where "\<not> fails SelectForUpdate"
      "find (\<lambda>c. pk c = cid) (customers d) = Some c"
      "check d today c amount rate tn = Inr el" "approval el"
      "add_months today tn = Inl e"
      "create_loan_body fails today cid amount rate tn d = (d, Inl e)"
  | (insert_fails) c el end_dt where "\<not> fails SelectForUpdate"
      "find (\<lambda>c. pk c = cid) (customers d) = Some c"
      "check d today c amount rate tn = Inr el" "approval el"
      "add_months today tn = Inr end_dt" "fails InsertLoan"
      "create_loan_body fails today cid amount rate tn d = (d, Inl StorageError)"
  | (save_fails) c el end_dt where "\<not> fails SelectForUpdate"
      "find (\<lambda>c. pk c = cid) (customers d) = Some c"
      "check d today c amount rate tn = Inr el" "approval el"
      "add_months today tn = Inr end_dt" "\<not> fails InsertLoan" "fails SaveCustomer"
      "create_loan_body fails today cid amount rate tn d =
         (d\<lparr>loans := loans d @
              [\<lparr>loan_pk = next_loan_pk d, customer_id = pk c, loan_amount = amount,
                tenure = tn, interest_rate = corrected_interest_rate el,
                monthly_installment = r_monthly_installment el, emis_paid_on_time = 0,
                start_date = today, end_date = end_dt, is_active = True\<rparr>],
            next_loan_pk := Suc (next_loan_pk d)\<rparr>,
          Inl StorageError)"
  | (written) c el end_dt where "\<not> fails SelectForUpdate"
      "find (\<lambda>c. pk c = cid) (customers d) = Some c"
      "check d today c amount rate tn = Inr el" "approval el"
      "add_months today tn = Inr end_dt" "\<not> fails InsertLoan" "\<not> fails SaveCustomer"
      "create_loan_body fails today cid amount rate tn d =
         (d\<lparr>loans := loans d @
              [\<lparr>loan_pk = next_loan_pk d, customer_id = pk c, loan_amount = amount,
                tenure = tn, interest_rate = corrected_interest_rate el,
                monthly_installment = r_monthly_installment el, emis_paid_on_time = 0,
                start_date = today, end_date = end_dt, is_active = True\<rparr>],
            next_loan_pk := Suc (next_loan_pk d),
            customers := map (\<lambda>x. if pk x = pk c
                                    then c\<lparr>current_debt := dec_add (current_debt c) amount\<rparr>
                                    else x) (customers d)\<rparr>,
          Inr \<lparr>loan_id = Some (next_loan_pk d), o_customer_id = cid, loan_approved = True,
               message = ''Loan approved successfully.'',
               o_monthly_installment = Some (r_monthly_installment el)\<rparr>)"
proof (cases "fails SelectForUpdate")
  case True
  then show ?thesis using locked by (simp add: create_loan_body_def)
next
  case nl: False
  show ?thesis
  proof (cases "find (\<lambda>c. pk c = cid) (customers d)")
    case None
    with nl show ?thesis using missing by (simp add: create_loan_body_def)
  next
    case fc: (Some c)
    show ?thesis
    proof (cases "check d today c amount rate tn")
      case (Inl e)
      with nl fc show ?thesis using raised by (simp add: create_loan_body_def)
    next
      case ck: (Inr el)
      show ?thesis
      proof (cases "approval el")
        case False
        with nl fc ck show ?thesis using rejected by (simp add: create_loan_body_def)
      next
        case ap: True
        show ?thesis
        proof (cases "add_months today tn")
          case (Inl e)
          with nl fc ck ap show ?thesis using no_date by (simp add: create_loan_body_def)
        next
          case dt: (Inr end_dt)
          show ?thesis
          proof (cases "fails InsertLoan")
            case True
            with nl fc ck ap dt show ?thesis using insert_fails
              by (simp add: create_loan_body_def)
          next
            case ni: False
            show ?thesis
            proof (cases "fails SaveCustomer")
              case True
              with nl fc ck ap dt ni show ?thesis using save_fails
                by (simp add: create_loan_body_def Let_def)
            next
              case False
              with nl fc ck ap dt ni show ?thesis using written
                by (simp add: create_loan_body_def Let_def)
            qed
          qed
        qed
      qed
    qed
  qed
qed

lemma create_loan_cases:
  obtains
    (failed) e where "create_loan fails today cid amount rate tn d = (d, Inl e)"
  | (rejected) c el where "\<not> fails SelectForUpdate" "\<not> fails Commit"
      "find (\<lambda>c. pk c = cid) (customers d) = Some c"
      "check d today c amount rate tn = Inr el" "\<not> approval el"
      "create_loan fails today cid amount rate tn d =
         (d, Inr \<lparr>loan_id = None, o_customer_id = cid, loan_approved = False,
                  message = get_rejection_message d today c, o_monthly_installment = None\<rparr>)"
  | (written) c el end_dt where "\<not> fails SelectForUpdate" "\<not> fails Commit"
      "find (\<lambda>c. pk c = cid) (customers d) = Some c"
      "check d today c amount rate tn = Inr el" "approval el"
      "add_months today tn = Inr end_dt" "\<not> fails InsertLoan" "\<not> fails SaveCustomer"
      "create_loan fails today cid amount rate tn d =
         (d\<lparr>loans := loans d @
              [\<lparr>loan_pk = next_loan_pk d, customer_id = pk c, loan_amount = amount,
                tenure = tn, interest_rate = corrected_interest_rate el,
                monthly_installment = r_monthly_installment el, emis_paid_on_time = 0,
                start_date = today, end_date = end_dt, is_active = True\<rparr>],
            next_loan_pk := Suc (next_loan_pk d),
            customers := map (\<lambda>x. if pk x = pk c
                                    then c\<lparr>current_debt := dec_add (current_debt c) amount\<rparr>
                                    else x) (customers d)\<rparr>,
          Inr \<lparr>loan_id = Some (next_loan_pk d), o_customer_id = cid, loan_approved = True,
               message = ''Loan approved successfully.'',
               o_monthly_installment = Some (r_monthly_installment el)\<rparr>)"
proof (cases rule: create_loan_body_cases[of fails today cid amount rate tn d])
  case locked
  then show ?thesis using failed by (simp add: create_loan_def atomic_def)
next
  case missing
  then show ?thesis using failed by (simp add: create_loan_def atomic_def)
next
  case (raised c e)
  then show ?thesis using failed by (simp add: create_loan_def atomic_def)
next
  case (rejected c el)
  show ?thesis
  proof (cases "fails Commit")
    case True
    with rejected(5) show ?thesis using failed by (simp add: create_loan_def atomic_def)
  next
    case False
    with rejected show ?thesis using that(2) by (simp add: create_loan_def atomic_def)
  qed
next
  case (no_date c el e)
  then show ?thesis using failed by (simp add: create_loan_def atomic_def)
next
  case (insert_fails c el end_dt)
  then show ?thesis using failed by (simp add: create_loan_def atomic_def)
next
  case (save_fails c el end_dt)
  then show ?thesis using failed by (simp add: create_loan_def atomic_def)
next
  case (written c el end_dt)
  show ?thesis
  proof (cases "fails Commit")
    case True
    with written(8) show ?thesis using failed by (simp add: create_loan_def atomic_def)
  next
    case False
    with written show ?thesis using that(3) by (simp add: create_loan_def atomic_def)
  qed
qed

lemma find_pk: "find (\<lambda>c. pk c = cid) cs = Some c \<Longrightarrow> pk c = cid \<and> c \<in> set cs"
  by (auto simp: find_Some_iff)

lemma get_rejection_message_cases:
  "get_rejection_message d today c =
     (if calculate d c today \<le> 10 \<and> emi_limit c \<le> current_emi_total d c
      then ''Credit score too low ('' @ str_int (calculate d c today) @
           ''/100). Current EMIs exceed 50% of monthly income.''
      else if calculate d c today \<le> 10
      then ''Credit score too low ('' @ str_int (calculate d c today) @ ''/100).''
      else if emi_limit c \<le> current_emi_total d c
      then ''Current EMIs exceed 50% of monthly income.''
      else ''Loan not approved based on eligibility criteria.'')"
  by (simp add: get_rejection_message_def Let_def)

lemma calculate_over: "calculate db_over customer_b today_a = 0"
  by (simp add: calculate_def loans_of_def db_over_def loan_over_def Let_def)

lemma current_emi_total_over: "current_emi_total db_over customer_b = 42000"
  by (simp add: current_emi_total_def db_over_def loan_over_def)

lemma emi_limit_b: "emi_limit customer_b = 25000"
  using dec_fix_decimal[of 25000 0] by (simp add: emi_limit_def dec_mul_def)

lemma check_over:
  "check db_over today_a customer_b 100000 12 12 =
     Inr \<lparr>r_customer_id = 1, approval = False, r_interest_rate = 12,
          corrected_interest_rate = 12, r_tenure = 12, r_monthly_installment = 222122 / 25\<rparr>"
  by (simp add: check_def emi_limit_b current_emi_total_over emi_100000_12_12 build_response_def)

lemma str_int_0: "str_int 0 = ''0''"
  by (simp add: str_int_def str_nat.simps)

lemma create_loan_rejected_eq:
  assumes "find (\<lambda>c. pk c = cid) (customers d) = Some c"
    "check d today c amount rate tn = Inr el" "\<not> approval el"
  shows "create_loan no_faults today cid amount rate tn d =
     (d, Inr \<lparr>loan_id = None, o_customer_id = cid, loan_approved = False,
              message = get_rejection_message d today c, o_monthly_installment = None\<rparr>)"
  using assms by (simp add: create_loan_def atomic_def create_loan_body_def no_faults_def)

lemma find_a: "find (\<lambda>c. pk c = 1) (customers db_a) = Some customer_a"
  by (simp add: db_a_def)

lemma find_over: "find (\<lambda>c. pk c = 1) (customers db_over) = Some customer_b"
  by (simp add: db_over_def)

lemma create_loan_over:
  "create_loan no_faults today_a 1 100000 12 12 db_over =
     (db_over, Inr \<lparr>loan_id = None, o_customer_id = 1, loan_approved = False,
        message = ''Credit score too low (0/100). Current EMIs exceed 50% of monthly income.'',
        o_monthly_installment = None\<rparr>)"
  using create_loan_rejected_eq[OF find_over check_over]
  by (simp add: get_rejection_message_cases calculate_over current_emi_total_over emi_limit_b
      str_int_0)

lemma create_loan_a_over_limit:
  "create_loan no_faults today_a 1 10000000 12 1 db_a =
     (db_a, Inr \<lparr>loan_id = None, o_customer_id = 1, loan_approved = False,
        message = ''Loan not approved based on eligibility criteria.'',
        o_monthly_installment = None\<rparr>)"
  using create_loan_rejected_eq[OF find_a check_a_over_limit]
  by (simp add: get_rejection_message_cases calculate_a current_emi_total_a emi_limit_a)

lemma create_loan_a_flipped:
  "create_loan no_faults today_a 1 100000 12 1 db_a =
     (db_a, Inr \<lparr>loan_id = None, o_customer_id = 1, loan_approved = False,
        message = ''Loan not approved based on eligibility criteria.'',
        o_monthly_installment = None\<rparr>)"
  using create_loan_rejected_eq[OF find_a check_a_flipped]
  by (simp add: get_rejection_message_cases calculate_a current_emi_total_a emi_limit_a)

text \<open>
  Claim C8, as stated, at concrete inputs. The customer has no loans (score 50, no active
  installments) and a limit of 3600000. A request of 10000000, above the limit, is
  rejected, and so is a request of 100000 over one month, whose installment of 101000
  exceeds half the salary; both carry the generic message, which names no failing
  condition.
\<close>

theorem generic_rejection_message:
  "of_int (approved_limit customer_a) < (10000000 :: rat) \<and>
   create_loan no_faults today_a 1 10000000 12 1 db_a =
     (db_a, Inr \<lparr>loan_id = None, o_customer_id = 1, loan_approved = False,
        message = ''Loan not approved based on eligibility criteria.'',
        o_monthly_installment = None\<rparr>) \<and>
   calculate_emi 100000 12 1 = Inr 101000 \<and>
   of_int (monthly_salary customer_a) / 2 < (101000 :: rat) \<and>
   create_loan no_faults today_a 1 100000 12 1 db_a =
     (db_a, Inr \<lparr>loan_id = None, o_customer_id = 1, loan_approved = False,
        message = ''Loan not approved based on eligibility criteria.'',
        o_monthly_installment = None\<rparr>)"
  using create_loan_a_over_limit create_loan_a_flipped emi_100000_12_1 by simp

text \<open>
  Claim C8, amended. A rejected call leaves the database as it was and returns no loan id
  and no installment. With \<open>s\<close> the credit score and the active installments summed
  exactly: the message is the low-score reason when \<open>s \<le> 10\<close>, the affordability reason
  when the active installments are at least half the salary, both joined by a space
  when both hold, and the generic message otherwise. In this last case the request was
  rejected because the amount is above the approved limit, or because the active
  installments plus the installment at the corrected rate exceed half the salary;
  neither condition is named in the message.
\<close>

theorem rejection_message:
  assumes run: "create_loan fails today cid amount rate tn d = (d', Inr out)"
    and rej: "\<not> loan_approved out"
    and found: "find (\<lambda>c. pk c = cid) (customers d) = Some c"
    and cols: "list_all (\<lambda>l. two_places (monthly_installment l)) (loans d)"
    and sal: "positive_integer (monthly_salary c)"
  shows "d' = d \<and> loan_id out = None \<and> o_monthly_installment out = None \<and>
    message out =
      (if calculate d c today \<le> 10 \<and>
          of_int (monthly_salary c) / 2 \<le>
            sum_list (map monthly_installment
              (filter (\<lambda>l. customer_id l = pk c \<and> is_active l) (loans d)))
       then ''Credit score too low ('' @ str_int (calculate d c today) @
            ''/100). Current EMIs exceed 50% of monthly income.''
       else if calculate d c today \<le> 10
       then ''Credit score too low ('' @ str_int (calculate d c today) @ ''/100).''
       else if of_int (monthly_salary c) / 2 \<le>
            sum_list (map monthly_installment
              (filter (\<lambda>l. customer_id l = pk c \<and> is_active l) (loans d)))
       then ''Current EMIs exceed 50% of monthly income.''
       else ''Loan not approved based on eligibility criteria.'') \<and>
    (10 < calculate d c today \<and>
     sum_list (map monthly_installment
       (filter (\<lambda>l. customer_id l = pk c \<and> is_active l) (loans d)))
       < of_int (monthly_salary c) / 2 \<longrightarrow>
       of_int (approved_limit c) < amount \<or>
       (\<exists>e. calculate_emi amount (snd (slab (calculate d c today) rate)) tn = Inr e \<and>
            of_int (monthly_salary c) / 2 <
              sum_list (map monthly_installment
                (filter (\<lambda>l. customer_id l = pk c \<and> is_active l) (loans d))) + e))"
proof -
  define act where "act = sum_list (map monthly_installment
              (filter (\<lambda>l. customer_id l = pk c \<and> is_active l) (loans d)))"
  have cur: "current_emi_total d c = act" by (simp add: current_emi_total_def act_def)
  have lim: "emi_limit c = of_int (monthly_salary c) / 2" using sal by (rule emi_limit_exact)
  have L: "0 \<le> emi_limit c" "emi_limit c < 10 ^ 26"
    using sal by (simp_all add: lim positive_integer_def)
  have tc: "two_places act"
  proof -
    have "list_all (\<lambda>l. two_places (monthly_installment l))
            (filter (\<lambda>l. customer_id l = pk c \<and> is_active l) (loans d))"
      using cols by (simp add: list_all_iff)
    then show ?thesis unfolding act_def by (rule two_places_sum_list)
  qed
  obtain el where ck: "check d today c amount rate tn = Inr el" and na: "\<not> approval el"
    and same: "d' = d"
    and out: "out = \<lparr>loan_id = None, o_customer_id = cid, loan_approved = False,
                  message = get_rejection_message d today c, o_monthly_installment = None\<rparr>"
  proof (cases rule: create_loan_cases[of fails today cid amount rate tn d])
    case (failed e)
    with run show ?thesis by simp
  next
    case (rejected c' el)
    have cc: "c' = c" using rejected(3) found by simp
    have "(d', Inr out :: error + outcome) =
        (d, Inr \<lparr>loan_id = None, o_customer_id = cid, loan_approved = False,
                  message = get_rejection_message d today c', o_monthly_installment = None\<rparr>)"
      using run[symmetric] rejected(6) by (rule trans)
    then have e: "d' = d" "out = \<lparr>loan_id = None, o_customer_id = cid, loan_approved = False,
                  message = get_rejection_message d today c, o_monthly_installment = None\<rparr>"
      by (simp_all add: cc)
    show ?thesis using rejected(4,5) e unfolding cc by (rule that)
  next
    case (written c' el end_dt)
    have "snd (create_loan fails today cid amount rate tn d) = Inr out" using run by simp
    then have "loan_approved out" unfolding written(9) by auto
    with rej show ?thesis by simp
  qed
  have msg: "message out = get_rejection_message d today c" by (simp add: out)
  have cause: "of_int (approved_limit c) < amount \<or>
       (\<exists>e. calculate_emi amount (snd (slab (calculate d c today) rate)) tn = Inr e \<and>
            of_int (monthly_salary c) / 2 < act + e)"
    if s: "10 < calculate d c today" and below: "act < of_int (monthly_salary c) / 2"
    using ck
  proof (cases rule: check_cases)
    case (over_limit new_emi)
    then show ?thesis by simp
  next
    case (emis_full new_emi)
    with below show ?thesis by (simp add: cur lim)
  next
    case (slab_step new_emi final_emi approval0 corrected)
    have a0: "approval0" using s slab_step(4) by (auto simp: slab_cases split: if_splits)
    have "two_places final_emi" using slab_step(5) by (rule calculate_emi_two_places)
    with tc have "two_places (act + final_emi)" by (rule two_places_add)
    then have "emi_limit c < dec_add act final_emi \<longleftrightarrow> emi_limit c < act + final_emi"
      unfolding dec_add_def using L by (rule dec_fix_gt_iff)
    moreover have "emi_limit c < dec_add act final_emi"
      using na slab_step(6) a0 by (simp add: build_response_def cur)
    ultimately have "of_int (monthly_salary c) / 2 < act + final_emi" by (simp add: lim)
    with slab_step(4,5) show ?thesis by auto
  qed
  show ?thesis
    unfolding act_def[symmetric] using same cause
    by (simp add: out get_rejection_message_cases cur lim)
qed

theorem rejection_message_witness:
  "\<exists>out. create_loan no_faults today_a 1 100000 12 12 db_over = (db_over, Inr out) \<and>
     \<not> loan_approved out \<and> loan_id out = None \<and>
     calculate db_over customer_b today_a = 0 \<and>
     of_int (monthly_salary customer_b) / 2 \<le>
       sum_list (map monthly_installment
         (filter (\<lambda>l. customer_id l = pk customer_b \<and> is_active l) (loans db_over))) \<and>
     message out =
       ''Credit score too low (0/100). Current EMIs exceed 50% of monthly income.''"
proof -
  have c: "list_all (\<lambda>l. two_places (monthly_installment l)) (loans db_over)"
    by (simp add: db_over_def loan_over_def two_places_def)
  have sal: "positive_integer (monthly_salary customer_b)"
    by (simp add: positive_integer_def)
  have s: "sum_list (map monthly_installment
       (filter (\<lambda>l. customer_id l = pk customer_b \<and> is_active l) (loans db_over))) = 42000"
    using current_emi_total_over by (simp add: current_emi_total_def)
  note t = rejection_message[OF create_loan_over _ find_over c sal,
      unfolded s calculate_over str_int_0]
  have "message \<lparr>loan_id = None, o_customer_id = 1, loan_approved = False,
        message = ''Credit score too low (0/100). Current EMIs exceed 50% of monthly income.'',
        o_monthly_installment = None\<rparr> =
       ''Credit score too low (0/100). Current EMIs exceed 50% of monthly income.''"
    using t by simp
  then show ?thesis
    unfolding s using create_loan_over calculate_over by simp
qed

subsection \<open>Approved calls\<close>


lemma add_months_returns:
  assumes "year dt + tn div 12 < 9999"
  shows "\<exists>e. add_months dt tn = Inr e"
  using assms by (simp add: add_months_def Let_def)

lemma add_months_a_12: "add_months today_a 12 = Inr \<lparr>year = 2027, month = 1, day = 15\<rparr>"
  by (simp add: add_months_def today_a_def Let_def days_in_month_def)



subsection \<open>Atomicity\<close>

text \<open>
  Claim C5. For every database, request and choice of failing statements, \<open>create_loan\<close>
  ends in one of three ways. It raises, and the database is what it was. It returns a
  rejection, and the database is what it was. It returns an approval, and both writes
  are in the database: the loan row and the increased debt. A normal return means that
  no statement the call executed has failed; and a failing statement that the call
  reaches (the row lock; the insert and the save of an approved request; the commit)
  makes it raise the storage error.
\<close>

theorem create_loan_atomic:
  "(\<forall>d' e. create_loan fails today cid amount rate tn d = (d', Inl e) \<longrightarrow> d' = d) \<and>
   (\<forall>d' out. create_loan fails today cid amount rate tn d = (d', Inr out) \<and>
       \<not> loan_approved out \<longrightarrow> d' = d \<and> loan_id out = None) \<and>
   (\<forall>d' out. create_loan fails today cid amount rate tn d = (d', Inr out) \<and>
       loan_approved out \<longrightarrow>
       (\<exists>c new. find (\<lambda>c. pk c = cid) (customers d) = Some c \<and>
          loans d' = loans d @ [new] \<and> customer_id new = cid \<and> loan_amount new = amount \<and>
          loan_id out = Some (loan_pk new) \<and>
          customers d' =
            map (\<lambda>x. if pk x = cid
                      then c\<lparr>current_debt := dec_add (current_debt c) amount\<rparr> else x)
                (customers d))) \<and>
   (\<forall>d' out. create_loan fails today cid amount rate tn d = (d', Inr out) \<longrightarrow>
       \<not> fails SelectForUpdate \<and> \<not> fails Commit \<and>
       (loan_approved out \<longrightarrow> \<not> fails InsertLoan \<and> \<not> fails SaveCustomer)) \<and>
   (fails SelectForUpdate \<longrightarrow>
       create_loan fails today cid amount rate tn d = (d, Inl StorageError)) \<and>
   (\<forall>c el. \<not> fails SelectForUpdate \<and> find (\<lambda>c. pk c = cid) (customers d) = Some c \<and>
       check d today c amount rate tn = Inr el \<and> fails Commit \<longrightarrow>
       (\<exists>e. create_loan fails today cid amount rate tn d = (d, Inl e)) \<and>
       (\<not> approval el \<longrightarrow>
          create_loan fails today cid amount rate tn d = (d, Inl StorageError))) \<and>
   (\<forall>c el end_dt. \<not> fails SelectForUpdate \<and>
       find (\<lambda>c. pk c = cid) (customers d) = Some c \<and>
       check d today c amount rate tn = Inr el \<and> approval el \<and>
       add_months today tn = Inr end_dt \<and>
       (fails InsertLoan \<or> fails SaveCustomer \<or> fails Commit) \<longrightarrow>
       create_loan fails today cid amount rate tn d = (d, Inl StorageError))"
proof (cases rule: create_loan_body_cases[of fails today cid amount rate tn d])
  case locked
  then show ?thesis by (simp add: create_loan_def atomic_def)
next
  case missing
  then show ?thesis by (simp add: create_loan_def atomic_def)
next
  case (raised c e)
  then show ?thesis by (simp add: create_loan_def atomic_def)
next
  case (rejected c el)
  then show ?thesis by (simp add: create_loan_def atomic_def)
next
  case (no_date c el e)
  then show ?thesis by (simp add: create_loan_def atomic_def)
next
  case (insert_fails c el end_dt)
  then show ?thesis by (simp add: create_loan_def atomic_def)
next
  case (save_fails c el end_dt)
  then show ?thesis by (simp add: create_loan_def atomic_def)
next
  case (written c el end_dt)
  have pk: "pk c = cid" using find_pk[OF written(2)] by simp
  from written show ?thesis by (simp add: create_loan_def atomic_def pk)
qed

theorem create_loan_atomic_witness:
  "create_loan save_fails_only today_a 1 100000 6 12 db_a = (db_a, Inl StorageError) \<and>
   length (loans (fst (create_loan_body save_fails_only today_a 1 100000 6 12 db_a))) = 1 \<and>
   customers (fst (create_loan_body save_fails_only today_a 1 100000 6 12 db_a)) =
     customers db_a \<and>
   loans db_a = []"
proof -
  note t = create_loan_atomic[of save_fails_only today_a 1 100000 6 12 db_a]
  note last = t[THEN conjunct2, THEN conjunct2, THEN conjunct2, THEN conjunct2,
      THEN conjunct2, THEN conjunct2, rule_format]
  have a: "create_loan save_fails_only today_a 1 100000 6 12 db_a = (db_a, Inl StorageError)"
  proof (rule last[of customer_a
        "\<lparr>r_customer_id = 1, approval = True, r_interest_rate = 6,
          corrected_interest_rate = 12, r_tenure = 12, r_monthly_installment = 222122 / 25\<rparr>"
        "\<lparr>year = 2027, month = 1, day = 15\<rparr>"])
    show "\<not> save_fails_only SelectForUpdate \<and>
      find (\<lambda>c. pk c = 1) (customers db_a) = Some customer_a \<and>
      check db_a today_a customer_a 100000 6 12 =
        Inr \<lparr>r_customer_id = 1, approval = True, r_interest_rate = 6,
          corrected_interest_rate = 12, r_tenure = 12, r_monthly_installment = 222122 / 25\<rparr> \<and>
      approval \<lparr>r_customer_id = 1, approval = True, r_interest_rate = 6,
          corrected_interest_rate = 12, r_tenure = 12, r_monthly_installment = 222122 / 25\<rparr> \<and>
      add_months today_a 12 = Inr \<lparr>year = 2027, month = 1, day = 15\<rparr> \<and>
      (save_fails_only InsertLoan \<or> save_fails_only SaveCustomer \<or> save_fails_only Commit)"
      using find_a check_a add_months_a_12 by (simp add: save_fails_only_def)
  qed
  have b: "fst (create_loan_body save_fails_only today_a 1 100000 6 12 db_a) =
      db_a\<lparr>loans := loans db_a @
          [\<lparr>loan_pk = next_loan_pk db_a, customer_id = pk customer_a, loan_amount = 100000,
            tenure = 12, interest_rate = 12, monthly_installment = 222122 / 25,
            emis_paid_on_time = 0, start_date = today_a,
            end_date = \<lparr>year = 2027, month = 1, day = 15\<rparr>, is_active = True\<rparr>],
        next_loan_pk := Suc (next_loan_pk db_a)\<rparr>"
    using find_a check_a add_months_a_12
    by (simp add: create_loan_body_def save_fails_only_def Let_def)
  have c: "loans db_a = []" by (simp add: db_a_def)
  show ?thesis unfolding b using a c by simp
qed






lemma customer_one_fields [simp]:
  "pk customer_one = 1" "monthly_salary customer_one = 100000"
  "approved_limit customer_one = 3600000" "current_debt customer_one = 2000000"
  by (simp_all add: customer_one_def)








subsection \<open>Two calls, one after the other\<close>








end
